theory Spec2Isabelle
  imports Complex_Main "HOL-Library.Word" "HOL-Library.Sublist"
begin

section \<open>IEEE 754 binary64 arithmetic, as Go's \<open>float64\<close> uses it\<close>

text \<open>
  \<open>percentage\<close> converts two \<open>int64\<close> values to \<open>float64\<close>, divides them and multiplies
  by 100. Each of the three operations rounds its exact result to the nearest binary64
  value, ties to the even significand. The model keeps a finite \<open>float64\<close> as the
  rational number it denotes, next to the two infinities and NaN. The sign of a zero is
  not kept: the only divisor that can be zero here is \<open>float64(Length())\<close>, the conversion
  of the integer 0, which is the positive zero.
\<close>

datatype f64 = Fin rat | PInf | NInf | NaN

definition round_half_even :: "rat \<Rightarrow> int" where
  "round_half_even q =
     (let f = \<lfloor>q\<rfloor>; r = q - of_int f
      in if r < 1 / 2 then f else if 1 / 2 < r then f + 1 else if even f then f else f + 1)"

text \<open>
  The spacing of binary64 values around a positive \<open>x\<close>: the least \<open>u = 2 ^ k * 2 ^ -1074\<close>
  with \<open>x < u * 2 ^ 53\<close> (so that the significand \<open>x / u\<close> has at most 53 bits), from the
  subnormal spacing \<open>2 ^ -1074\<close> up to \<open>2 ^ 971\<close>, the spacing below the overflow threshold.
\<close>

fun ulp_scan :: "nat \<Rightarrow> rat \<Rightarrow> rat \<Rightarrow> rat" where
  "ulp_scan 0 u x = u"
| "ulp_scan (Suc n) u x = (if x < u * 2 ^ 53 then u else ulp_scan n (2 * u) x)"

definition min_ulp :: rat where
  "min_ulp = 1 / 2 ^ 1074"

definition ulp_of :: "rat \<Rightarrow> rat" where
  "ulp_of x = ulp_scan 2045 min_ulp x"

definition round_pos :: "rat \<Rightarrow> rat" where
  "round_pos x = ulp_of x * of_int (round_half_even (x / ulp_of x))"

definition max_f64 :: rat where
  "max_f64 = 2 ^ 1024"

definition round64 :: "rat \<Rightarrow> f64" where
  "round64 x =
     (if x = 0 then Fin 0
      else if 0 < x then (if max_f64 \<le> round_pos x then PInf else Fin (round_pos x))
      else (if max_f64 \<le> round_pos (- x) then NInf else Fin (- round_pos (- x))))"

fun f64_div :: "f64 \<Rightarrow> f64 \<Rightarrow> f64" where
  "f64_div NaN b = NaN"
| "f64_div a NaN = NaN"
| "f64_div (Fin x) (Fin y) =
     (if y = 0 then (if x = 0 then NaN else if 0 < x then PInf else NInf)
      else round64 (x / y))"
| "f64_div (Fin x) PInf = Fin 0"
| "f64_div (Fin x) NInf = Fin 0"
| "f64_div PInf (Fin y) = (if 0 \<le> y then PInf else NInf)"
| "f64_div NInf (Fin y) = (if 0 \<le> y then NInf else PInf)"
| "f64_div PInf PInf = NaN"
| "f64_div PInf NInf = NaN"
| "f64_div NInf PInf = NaN"
| "f64_div NInf NInf = NaN"

fun f64_mul :: "f64 \<Rightarrow> f64 \<Rightarrow> f64" where
  "f64_mul NaN b = NaN"
| "f64_mul a NaN = NaN"
| "f64_mul (Fin x) (Fin y) = round64 (x * y)"
| "f64_mul (Fin x) PInf = (if x = 0 then NaN else if 0 < x then PInf else NInf)"
| "f64_mul (Fin x) NInf = (if x = 0 then NaN else if 0 < x then NInf else PInf)"
| "f64_mul PInf (Fin y) = (if y = 0 then NaN else if 0 < y then PInf else NInf)"
| "f64_mul NInf (Fin y) = (if y = 0 then NaN else if 0 < y then NInf else PInf)"
| "f64_mul PInf PInf = PInf"
| "f64_mul PInf NInf = NInf"
| "f64_mul NInf PInf = NInf"
| "f64_mul NInf NInf = PInf"

text \<open>Go's \<open>a > b\<close> on \<open>float64\<close>: false as soon as one side is NaN.\<close>

fun f64_gt :: "f64 \<Rightarrow> f64 \<Rightarrow> bool" where
  "f64_gt NaN b = False"
| "f64_gt a NaN = False"
| "f64_gt (Fin x) (Fin y) = (y < x)"
| "f64_gt (Fin x) PInf = False"
| "f64_gt (Fin x) NInf = True"
| "f64_gt PInf PInf = False"
| "f64_gt PInf b = True"
| "f64_gt NInf b = False"

text \<open>The order of the values that are not NaN, used to state that rounding is monotone.\<close>

fun f64_le :: "f64 \<Rightarrow> f64 \<Rightarrow> bool" where
  "f64_le NaN b = False"
| "f64_le a NaN = False"
| "f64_le NInf b = True"
| "f64_le a PInf = True"
| "f64_le (Fin x) (Fin y) = (x \<le> y)"
| "f64_le (Fin x) NInf = False"
| "f64_le PInf b = False"

type_synonym int64 = "64 word"

text \<open>The conversion \<open>float64(n)\<close> of an \<open>int64\<close>, read as two's complement.\<close>

definition float64 :: "int64 \<Rightarrow> f64" where
  "float64 n = round64 (of_int (sint n))"

text \<open>
  The value \<open>q * 100\<close> in \<open>float64\<close>, for an exact quotient \<open>q\<close>: the quotient is rounded,
  then the product.
\<close>

definition pct :: "rat \<Rightarrow> f64" where
  "pct q = f64_mul (round64 q) (Fin 100)"

type_synonym uint64 = "64 word"

section \<open>The engine's torrent handle, as \<open>client.go\<close> reads it\<close>

text \<open>
  \<open>torrent.Torrent\<close> belongs to the download engine. The record holds what the methods
  and fields used by \<open>client.go\<close> return at the moment of a call: \<open>Name()\<close>, \<open>Length()\<close>,
  \<open>BytesCompleted()\<close>, \<open>Files()\<close>, the slice \<open>Pieces\<close>, the slice \<open>Conns\<close> and whether the
  channel \<open>GotInfo()\<close> is closed. Lengths are \<open>int64\<close>: 64-bit words read with \<open>sint\<close>
  and compared with \<open><s\<close>.
\<close>

datatype piece_priority =
  PiecePriorityNone | PiecePriorityNormal | PiecePriorityReadahead
  | PiecePriorityNext | PiecePriorityNow

record piece =
  Priority :: piece_priority

record File =
  DisplayPath :: string
  Offset :: int64
  File_Length :: int64

record Torrent =
  Name :: string
  Length :: int64
  BytesCompleted :: int64
  Files :: "File list"
  Pieces :: "piece list"
  Conns :: "string list"
  GotInfo :: bool

definition zero_File :: File where
  "zero_File = \<lparr>DisplayPath = [], Offset = 0, File_Length = 0\<rparr>"

definition zero_Torrent :: Torrent where
  "zero_Torrent =
     \<lparr>Name = [], Length = 0, BytesCompleted = 0, Files = [], Pieces = [], Conns = [],
      GotInfo = False\<rparr>"

section \<open>Errors\<close>

text \<open>
  Go's \<open>error\<close> values: the ones the libraries return, and \<open>ClientError{Type, Origin}\<close>
  with its method \<open>Error()\<close>.
\<close>

datatype error = LibraryError string | ClientError string error

fun Error :: "error \<Rightarrow> string" where
  "Error (LibraryError msg) = msg"
| "Error (ClientError ty origin) = ''Error '' @ ty @ '': '' @ Error origin @ [CHR 0x0A]"

section \<open>The client\<close>

record Config =
  DataDir :: string
  NoUpload :: bool
  Seed :: bool

datatype engine = Engine Config

record Client =
  Client :: "engine option"
  Torrent :: Torrent
  Progress :: int64
  Port :: int

definition zero_Client :: Client where
  "zero_Client = \<lparr>Client = None, Torrent = zero_Torrent, Progress = 0, Port = 0\<rparr>"

subsection \<open>percentage and ReadyForPlayback\<close>

definition percentage :: "Client \<Rightarrow> f64" where
  "percentage c =
     f64_mul (f64_div (float64 (BytesCompleted (Torrent c))) (float64 (Length (Torrent c))))
       (Fin 100)"

definition ReadyForPlayback :: "Client \<Rightarrow> bool" where
  "ReadyForPlayback c = f64_gt (percentage c) (Fin 5)"

subsection \<open>downloadFile and NewClient\<close>

text \<open>
  What the libraries answer is given by an environment: one field for each call that
  \<open>NewClient\<close> and \<open>downloadFile\<close> make. \<open>io_Copy\<close> is \<open>None\<close> when the whole body is
  copied, and \<open>Some (n, err)\<close> when the copy stops with \<open>err\<close> after \<open>n\<close> bytes.
\<close>

record Response =
  StatusCode :: nat
  Body :: string

record env =
  os_TempDir :: string
  torrent_NewClient :: "Config \<Rightarrow> error + engine"
  AddMagnet :: "engine \<Rightarrow> string \<Rightarrow> error + Torrent"
  AddTorrentFromFile :: "engine \<Rightarrow> string \<Rightarrow> error + Torrent"
  os_Stat :: "string \<Rightarrow> error option"
  ioutil_TempFile :: "string \<Rightarrow> string \<Rightarrow> error + string"
  http_Get :: "string \<Rightarrow> error + Response"
  io_Copy :: "string \<Rightarrow> (nat \<times> error) option"

text \<open>
  \<open>downloadFile\<close> returns \<open>(fileName, err)\<close>; the model adds the temporary file the call
  leaves on disk, as \<open>(name, content)\<close>. The two deferred \<open>Close\<close> calls only log.
\<close>

definition downloadFile :: "env \<Rightarrow> string \<Rightarrow> (string \<times> error option) \<times> (string \<times> string) option" where
  "downloadFile e URL =
     (case ioutil_TempFile e (os_TempDir e) ''torrent-imageviewer'' of
        Inl err \<Rightarrow> (([], Some err), None)
      | Inr file \<Rightarrow>
          (case http_Get e URL of
             Inl err \<Rightarrow> (([], Some err), Some (file, []))
           | Inr response \<Rightarrow>
               (case io_Copy e (Body response) of
                  None \<Rightarrow> ((file, None), Some (file, Body response))
                | Some (n, err) \<Rightarrow> ((file, Some err), Some (file, take n (Body response))))))"

text \<open>\<open>strings.HasPrefix\<close>, and the regular expression \<open>^https?:\/\/\<close> of \<open>isHTTP\<close>.\<close>

definition HasPrefix :: "string \<Rightarrow> string \<Rightarrow> bool" where
  "HasPrefix s p = prefix p s"

definition isHTTP_MatchString :: "string \<Rightarrow> bool" where
  "isHTTP_MatchString s = (prefix ''http://'' s \<or> prefix ''https://'' s)"

text \<open>
  \<open>NewClient\<close> returns \<open>(client, err)\<close>, and on success it has started one goroutine on
  the torrent; the model returns the goroutines started as a third component.
\<close>

datatype goroutine = Prioritize Torrent

definition NewClient :: "env \<Rightarrow> string \<Rightarrow> int \<Rightarrow> bool \<Rightarrow> Client \<times> error option \<times> goroutine list" where
  "NewClient e torrentPath port seed =
     (let client = zero_Client\<lparr>Port := port\<rparr> in
      case torrent_NewClient e \<lparr>DataDir = os_TempDir e, NoUpload = \<not> seed, Seed = seed\<rparr> of
        Inl err \<Rightarrow> (client, Some (ClientError ''creating torrent client'' err), [])
      | Inr c \<Rightarrow>
          (let client = client\<lparr>Client := Some c\<rparr> in
           if HasPrefix torrentPath ''magnet:'' then
             (case AddMagnet e c torrentPath of
                Inl err \<Rightarrow> (client, Some (ClientError ''adding torrent'' err), [])
              | Inr t \<Rightarrow> (client\<lparr>Torrent := t\<rparr>, None, [Prioritize t]))
           else
             (case (if isHTTP_MatchString torrentPath then fst (downloadFile e torrentPath)
                    else (torrentPath, None)) of
                (path, Some err) \<Rightarrow>
                  (client, Some (ClientError ''downloading torrent file'' err), [])
              | (path, None) \<Rightarrow>
                  (case os_Stat e path of
                     Some err \<Rightarrow> (client, Some (ClientError ''file not found'' err), [])
                   | None \<Rightarrow>
                       (case AddTorrentFromFile e c path of
                          Inl err \<Rightarrow>
                            (client, Some (ClientError ''adding torrent to the client'' err), [])
                        | Inr t \<Rightarrow> (client\<lparr>Torrent := t\<rparr>, None, [Prioritize t]))))))"

subsection \<open>The goroutine started by NewClient\<close>

text \<open>
  The calls \<open>client.go\<close> makes into the engine that return nothing are kept in a log, in
  the order they are made.
\<close>

datatype engine_call = Call_DownloadAll | Call_Drop | Call_Close




subsection \<open>Close\<close>

definition Close :: "Client \<Rightarrow> engine_call list \<Rightarrow> engine_call list" where
  "Close c calls = (let calls = calls @ [Call_Drop] in calls @ [Call_Close])"

subsection \<open>Render\<close>

text \<open>
  What \<open>Render\<close> prints, one value for each print statement, holding the arguments given
  to \<open>humanize.Bytes\<close> and to the format verbs. \<open>uint64(x)\<close> keeps the 64 bits of \<open>x\<close>.
\<close>

datatype printed =
  Print_clearScreen
  | Print_Name string
  | Print_rule
  | Print_Stream int
  | Print_Progress uint64 uint64 f64
  | Print_Download_speed uint64
  | Print_Connections nat

definition Render_speed :: "Client \<Rightarrow> uint64" where
  "Render_speed c = BytesCompleted (Torrent c) - Progress c"

definition Render :: "Client \<Rightarrow> Client \<times> printed list" where
  "Render c =
     (let t = Torrent c;
          currentProgress = BytesCompleted t;
          speed = Render_speed c;
          c = c\<lparr>Progress := currentProgress\<rparr>;
          complete = currentProgress;
          size' = Length t
      in (c,
          [Print_clearScreen, Print_Name (Name t), Print_rule]
          @ (if ReadyForPlayback c then [Print_Stream (Port c)] else [])
          @ (if 0 <s currentProgress then [Print_Progress complete size' (percentage c)] else [])
          @ (if currentProgress <s Length t then [Print_Download_speed speed] else [])
          @ [Print_Connections (length (Conns t))]))"

subsection \<open>getLargestFile and GetFile\<close>

fun largest_loop :: "File list \<Rightarrow> int64 \<times> File \<Rightarrow> int64 \<times> File" where
  "largest_loop [] (maxSize, target) = (maxSize, target)"
| "largest_loop (file # files) (maxSize, target) =
     (if maxSize <s File_Length file then largest_loop files (File_Length file, file)
      else largest_loop files (maxSize, target))"

definition getLargestFile :: "Client \<Rightarrow> File" where
  "getLargestFile c = snd (largest_loop (Files (Torrent c)) (0, zero_File))"

text \<open>
  \<open>NewFileReader\<close> is defined in another file of the package; \<open>GetFile\<close> takes it as a
  parameter. The response is either \<open>http.Error\<close> with its message and status, or
  \<open>http.ServeContent\<close> with the request, the header set before, the name and the reader.
\<close>

datatype ('q, 'r) response =
  http_Error string nat
  | http_ServeContent 'q string string 'r

definition GetFile :: "(Client \<Rightarrow> File \<Rightarrow> error + 'r) \<Rightarrow> Client \<Rightarrow> 'q \<Rightarrow> ('q, 'r) response" where
  "GetFile NewFileReader c r =
     (let target = getLargestFile c in
      case NewFileReader c target of
        Inl err \<Rightarrow> http_Error (Error err) 500
      | Inr entry \<Rightarrow>
          http_ServeContent r
            (''attachment; filename='' @ [CHR 0x22] @ Name (Torrent c) @ [CHR 0x22])
            (DisplayPath target) entry)"

section \<open>The formulas of the specification\<close>

text \<open>
  The readiness test, the size of the initial readahead window and the throughput as the
  specification words them, to be compared with what the code computes.
\<close>

definition spec_ready :: "int64 \<Rightarrow> int64 \<Rightarrow> bool" where
  "spec_ready bytesCompleted totalLength =
     ((5 / 100 :: rat) \<le> of_int (sint bytesCompleted) / of_int (sint totalLength))"


definition spec_throughput :: "int64 \<Rightarrow> int64 \<Rightarrow> rat \<Rightarrow> rat" where
  "spec_throughput current previous intervalSeconds =
     (of_int (sint current) - of_int (sint previous)) / intervalSeconds"

section \<open>An example session and an example environment\<close>

text \<open>
  A torrent of 100 pieces with two files, and an environment in which every library call
  succeeds and the web server answers 404 with a short body. The theorems below are
  instantiated on them and on variants of them.
\<close>

definition example_torrent :: Torrent where
  "example_torrent =
     \<lparr>Name = ''film'', Length = 100, BytesCompleted = 10,
      Files = [\<lparr>DisplayPath = ''film/sample.mkv'', Offset = 0, File_Length = 10\<rparr>,
               \<lparr>DisplayPath = ''film/film.mkv'', Offset = 10, File_Length = 90\<rparr>],
      Pieces = replicate 100 \<lparr>Priority = PiecePriorityNormal\<rparr>,
      Conns = [''10.0.0.1:6881''], GotInfo = True\<rparr>"

definition example_env :: env where
  "example_env =
     \<lparr>os_TempDir = ''/tmp'',
      torrent_NewClient = (\<lambda>cfg. Inr (Engine cfg)),
      AddMagnet = (\<lambda>c uri. Inr example_torrent),
      AddTorrentFromFile = (\<lambda>c path. Inr example_torrent),
      os_Stat = (\<lambda>path. None),
      ioutil_TempFile = (\<lambda>dir pre. Inr (dir @ ''/'' @ pre @ ''042'')),
      http_Get = (\<lambda>url. Inr \<lparr>StatusCode = 404, Body = ''Not Found''\<rparr>),
      io_Copy = (\<lambda>body. None)\<rparr>"

section \<open>Rounding to nearest, ties to even\<close>

lemma rhe_of_int: "round_half_even (of_int n) = n"
  by (simp add: round_half_even_def)

lemma rhe_lower: "\<lfloor>q\<rfloor> \<le> round_half_even q"
  by (simp add: round_half_even_def Let_def)

lemma rhe_upper: "round_half_even q \<le> \<lfloor>q\<rfloor> + 1"
  by (simp add: round_half_even_def Let_def)

lemma rhe_mono:
  assumes "q \<le> q'"
  shows "round_half_even q \<le> round_half_even q'"
proof (cases "\<lfloor>q\<rfloor> = \<lfloor>q'\<rfloor>")
  case True
  with assms show ?thesis
    by (auto simp: round_half_even_def Let_def)
next
  case False
  with assms have "\<lfloor>q\<rfloor> < \<lfloor>q'\<rfloor>"
    using floor_mono [of q q'] by linarith
  then have "round_half_even q \<le> \<lfloor>q'\<rfloor>"
    using rhe_upper [of q] by linarith
  then show ?thesis
    using rhe_lower [of q'] by linarith
qed

lemma rhe_ge_int: "of_int n \<le> q \<Longrightarrow> n \<le> round_half_even q"
  using rhe_mono [of "of_int n" q] by (simp add: rhe_of_int)

lemma rhe_le_int: "q \<le> of_int n \<Longrightarrow> round_half_even q \<le> n"
  using rhe_mono [of q "of_int n"] by (simp add: rhe_of_int)

lemma ulp_scan_ge: "0 < u \<Longrightarrow> u \<le> ulp_scan n u x"
proof (induction n arbitrary: u)
  case 0
  then show ?case by simp
next
  case (Suc n)
  from Suc.IH [of "2 * u"] Suc.prems show ?case by auto
qed

lemma ulp_scan_pow: "\<exists>k\<le>n. ulp_scan n u x = u * 2 ^ k"
proof (induction n arbitrary: u)
  case 0
  then show ?case by simp
next
  case (Suc n)
  show ?case
  proof (cases "x < u * 2 ^ 53")
    case True
    then have "ulp_scan (Suc n) u x = u * 2 ^ 0" by simp
    then show ?thesis by blast
  next
    case False
    from Suc.IH [of "2 * u"] obtain k where "k \<le> n" "ulp_scan n (2 * u) x = 2 * u * 2 ^ k"
      by blast
    with False have "Suc k \<le> Suc n" "ulp_scan (Suc n) u x = u * 2 ^ Suc k"
      by simp_all
    then show ?thesis by blast
  qed
qed

lemma ulp_scan_mono: "0 < u \<Longrightarrow> x \<le> y \<Longrightarrow> ulp_scan n u x \<le> ulp_scan n u y"
proof (induction n arbitrary: u)
  case 0
  then show ?case by simp
next
  case (Suc n)
  show ?case
  proof (cases "y < u * 2 ^ 53")
    case True
    with Suc.prems show ?thesis by simp
  next
    case False
    show ?thesis
    proof (cases "x < u * 2 ^ 53")
      case True
      have "u \<le> 2 * u" using Suc.prems by simp
      also have "2 * u \<le> ulp_scan n (2 * u) y"
        using Suc.prems by (intro ulp_scan_ge) simp
      finally show ?thesis using True False by simp
    next
      case x: False
      from Suc.IH [of "2 * u"] Suc.prems have "ulp_scan n (2 * u) x \<le> ulp_scan n (2 * u) y"
        by simp
      with x False show ?thesis by simp
    qed
  qed
qed

text \<open>stopped before the fuel ran out: the significand fits\<close>
lemma ulp_scan_upper: "0 < u \<Longrightarrow> ulp_scan n u x < u * 2 ^ n \<Longrightarrow> x < ulp_scan n u x * 2 ^ 53"
proof (induction n arbitrary: u)
  case 0
  then show ?case by simp
next
  case (Suc n)
  show ?case
  proof (cases "x < u * 2 ^ 53")
    case True
    then show ?thesis by simp
  next
    case False
    with Suc.prems have "ulp_scan n (2 * u) x < 2 * u * 2 ^ n" by simp
    with Suc.IH [of "2 * u"] Suc.prems False show ?thesis by simp
  qed
qed

lemma ulp_scan_lower: "0 < u \<Longrightarrow> u < ulp_scan n u x \<Longrightarrow> ulp_scan n u x * 2 ^ 52 \<le> x"
proof (induction n arbitrary: u)
  case 0
  then show ?case by simp
next
  case (Suc n)
  from Suc.prems have nx: "\<not> x < u * 2 ^ 53" by auto
  then have eq: "ulp_scan (Suc n) u x = ulp_scan n (2 * u) x" by simp
  show ?case
  proof (cases "2 * u < ulp_scan n (2 * u) x")
    case True
    with Suc.IH [of "2 * u"] Suc.prems eq show ?thesis by simp
  next
    case False
    moreover have "2 * u \<le> ulp_scan n (2 * u) x"
      using Suc.prems by (intro ulp_scan_ge) simp
    ultimately have "ulp_scan n (2 * u) x = 2 * u" by simp
    with eq nx show ?thesis by simp
  qed
qed

section \<open>Rounding is monotone\<close>

lemma min_ulp_pos: "0 < min_ulp"
  by (simp add: min_ulp_def)

lemma ulp_of_pos: "0 < ulp_of x"
  using ulp_scan_ge [OF min_ulp_pos, of 2045 x] min_ulp_pos by (simp add: ulp_of_def)

lemma ulp_of_mono: "x \<le> y \<Longrightarrow> ulp_of x \<le> ulp_of y"
  by (simp add: ulp_of_def ulp_scan_mono min_ulp_pos)

lemma ulp_of_pow: "\<exists>k\<le>2045. ulp_of x = min_ulp * 2 ^ k"
  unfolding ulp_of_def by (rule ulp_scan_pow)

lemma ulp_of_upper: "ulp_of x < min_ulp * 2 ^ 2045 \<Longrightarrow> x < ulp_of x * 2 ^ 53"
  unfolding ulp_of_def by (rule ulp_scan_upper [OF min_ulp_pos])

lemma ulp_of_lower: "min_ulp < ulp_of x \<Longrightarrow> ulp_of x * 2 ^ 52 \<le> x"
  unfolding ulp_of_def by (rule ulp_scan_lower [OF min_ulp_pos])

lemma round_pos_nonneg: "0 \<le> x \<Longrightarrow> 0 \<le> round_pos x"
proof -
  assume "0 \<le> x"
  then have "0 \<le> x / ulp_of x" using ulp_of_pos [of x] by simp
  then have "0 \<le> round_half_even (x / ulp_of x)"
    using rhe_ge_int [of 0 "x / ulp_of x"] by simp
  then show ?thesis
    using ulp_of_pos [of x] by (simp add: round_pos_def)
qed

lemma round_pos_le_top: "x < ulp_of x * 2 ^ 53 \<Longrightarrow> round_pos x \<le> ulp_of x * 2 ^ 53"
proof -
  assume "x < ulp_of x * 2 ^ 53"
  then have "x / ulp_of x \<le> of_int (2 ^ 53)"
    using ulp_of_pos [of x] by (simp add: pos_divide_le_eq mult.commute)
  then have "round_half_even (x / ulp_of x) \<le> 2 ^ 53"
    by (rule rhe_le_int)
  then have "(of_int (round_half_even (x / ulp_of x)) :: rat) \<le> of_int (2 ^ 53)"
    by (simp only: of_int_le_iff)
  then show ?thesis
    using ulp_of_pos [of x] by (simp add: round_pos_def)
qed

lemma round_pos_ge_bot: "ulp_of x * 2 ^ 52 \<le> x \<Longrightarrow> ulp_of x * 2 ^ 52 \<le> round_pos x"
proof -
  assume "ulp_of x * 2 ^ 52 \<le> x"
  then have "of_int (2 ^ 52) \<le> x / ulp_of x"
    using ulp_of_pos [of x] by (simp add: pos_le_divide_eq mult.commute)
  then have "2 ^ 52 \<le> round_half_even (x / ulp_of x)"
    by (rule rhe_ge_int)
  then have "(of_int (2 ^ 52) :: rat) \<le> of_int (round_half_even (x / ulp_of x))"
    by (simp only: of_int_le_iff)
  then show ?thesis
    using ulp_of_pos [of x] by (simp add: round_pos_def)
qed

lemma round_pos_mono:
  assumes "x \<le> y"
  shows "round_pos x \<le> round_pos y"
proof (cases "ulp_of x = ulp_of y")
  case True
  have "x / ulp_of y \<le> y / ulp_of y"
    using assms ulp_of_pos [of y] by (simp add: divide_right_mono)
  then have "round_half_even (x / ulp_of y) \<le> round_half_even (y / ulp_of y)"
    by (rule rhe_mono)
  then have "(of_int (round_half_even (x / ulp_of y)) :: rat) \<le> of_int (round_half_even (y / ulp_of y))"
    by (simp only: of_int_le_iff)
  then show ?thesis
    using True ulp_of_pos [of y] by (simp add: round_pos_def)
next
  case False
  with ulp_of_mono [OF assms] have lt: "ulp_of x < ulp_of y" by simp
  obtain j where j: "j \<le> 2045" "ulp_of x = min_ulp * 2 ^ j"
    using ulp_of_pow [of x] by blast
  obtain k where k: "k \<le> 2045" "ulp_of y = min_ulp * 2 ^ k"
    using ulp_of_pow [of y] by blast
  from lt j k min_ulp_pos have "(2::rat) ^ j < 2 ^ k" by simp
  then have jk: "j < k" by simp
  then have "Suc j \<le> k" by simp
  then have "(2::rat) ^ Suc j \<le> 2 ^ k"
    by (rule power_increasing) simp
  then have dbl: "2 * ulp_of x \<le> ulp_of y"
    using j k min_ulp_pos by simp
  have "(2::rat) ^ j < 2 ^ 2045"
    using jk k(1) by (intro power_strict_increasing) simp_all
  then have "ulp_of x < min_ulp * 2 ^ 2045"
    using j min_ulp_pos by simp
  then have "x < ulp_of x * 2 ^ 53" by (rule ulp_of_upper)
  then have "round_pos x \<le> ulp_of x * 2 ^ 53" by (rule round_pos_le_top)
  also have "\<dots> \<le> ulp_of y * 2 ^ 52" using dbl by simp
  also have "\<dots> \<le> round_pos y"
  proof (rule round_pos_ge_bot, rule ulp_of_lower)
    have "min_ulp \<le> ulp_of x"
      using j min_ulp_pos by simp
    with lt show "min_ulp < ulp_of y" by simp
  qed
  finally show ?thesis .
qed

lemma round64_not_NaN: "round64 x \<noteq> NaN"
  by (simp add: round64_def)

lemma round64_mono:
  assumes "x \<le> y"
  shows "f64_le (round64 x) (round64 y)"
proof -
  have nn: "0 \<le> round_pos z" if "0 \<le> z" for z
    using that by (rule round_pos_nonneg)
  consider "x = y" | "x < y" "y < 0" | "x < y" "y = 0" | "x < 0" "0 < y" | "x = 0" "0 < y" | "0 < x" "x < y"
    using assms by linarith
  then show ?thesis
  proof cases
    case 1
    then show ?thesis by (simp add: round64_def)
  next
    case 2
    then have "round_pos (- y) \<le> round_pos (- x)"
      by (intro round_pos_mono) simp
    with 2 show ?thesis by (simp add: round64_def)
  next
    case 3
    with nn [of "- x"] show ?thesis by (simp add: round64_def)
  next
    case 4
    with nn [of "- x"] nn [of y] show ?thesis by (simp add: round64_def)
  next
    case 5
    with nn [of y] show ?thesis by (simp add: round64_def)
  next
    case 6
    then have "round_pos x \<le> round_pos y"
      by (intro round_pos_mono) simp
    with 6 show ?thesis by (simp add: round64_def)
  qed
qed

section \<open>Values that round to themselves\<close>

lemma ulp_scan_eq:
  assumes u: "0 < u" and kn: "k \<le> n"
    and lo: "k = 0 \<or> u * 2 ^ k * 2 ^ 52 \<le> x"
    and hi: "k = n \<or> x < u * 2 ^ k * 2 ^ 53"
  shows "ulp_scan n u x = u * 2 ^ k"
proof -
  obtain j where j: "j \<le> n" "ulp_scan n u x = u * 2 ^ j"
    using ulp_scan_pow [of n u x] by blast
  have "\<not> j < k"
  proof
    assume jk: "j < k"
    then have "(2::rat) ^ j < 2 ^ n"
      using kn by (intro power_strict_increasing) simp_all
    then have "ulp_scan n u x < u * 2 ^ n"
      using j u by simp
    then have "x < u * 2 ^ j * 2 ^ 53"
      using ulp_scan_upper [OF u, of n x] j by simp
    moreover have "(2::rat) ^ Suc j \<le> 2 ^ k"
      using jk by (intro power_increasing) simp_all
    then have "u * 2 ^ j * 2 ^ 53 \<le> u * 2 ^ k * 2 ^ 52"
      using u by simp
    moreover have "u * 2 ^ k * 2 ^ 52 \<le> x"
      using lo jk by auto
    ultimately show False by linarith
  qed
  moreover have "\<not> k < j"
  proof
    assume kj: "k < j"
    then have "(2::rat) ^ 0 < 2 ^ j"
      by (intro power_strict_increasing) simp_all
    then have "u < ulp_scan n u x"
      using j u by simp
    then have "u * 2 ^ j * 2 ^ 52 \<le> x"
      using ulp_scan_lower [OF u, of n x] j by simp
    moreover have "(2::rat) ^ Suc k \<le> 2 ^ j"
      using kj by (intro power_increasing) simp_all
    then have "u * 2 ^ k * 2 ^ 53 \<le> u * 2 ^ j * 2 ^ 52"
      using u by simp
    moreover have "x < u * 2 ^ k * 2 ^ 53"
      using hi kj j(1) by auto
    ultimately show False by linarith
  qed
  ultimately have "j = k" by simp
  with j show ?thesis by simp
qed

text \<open>spacing \<open>2 ^ -m\<close>\<close>
lemma ulp_of_eq_neg:
  assumes "m \<le> 1074" and lo: "m = 1074 \<or> 2 ^ 52 / 2 ^ m \<le> x" and hi: "x < 2 ^ 53 / 2 ^ m"
  shows "ulp_of x = 1 / 2 ^ m"
proof -
  have "(2::rat) ^ (1074 - m) * 2 ^ m = 2 ^ 1074"
    using assms(1) by (simp flip: power_add)
  then have e: "min_ulp * 2 ^ (1074 - m) = 1 / 2 ^ m"
    unfolding min_ulp_def by (simp add: field_simps)
  have "ulp_scan 2045 min_ulp x = min_ulp * 2 ^ (1074 - m)"
  proof (rule ulp_scan_eq [OF min_ulp_pos])
    show "1074 - m \<le> 2045" by simp
    show "1074 - m = 0 \<or> min_ulp * 2 ^ (1074 - m) * 2 ^ 52 \<le> x"
      using lo assms(1) unfolding e by (auto simp: mult.commute)
    show "1074 - m = 2045 \<or> x < min_ulp * 2 ^ (1074 - m) * 2 ^ 53"
      using hi unfolding e by (simp add: mult.commute)
  qed
  then show ?thesis by (simp add: ulp_of_def e)
qed

text \<open>spacing \<open>2 ^ m\<close>\<close>
lemma ulp_of_eq_pos:
  assumes "m \<le> 971" and lo: "2 ^ 52 * 2 ^ m \<le> x" and hi: "m = 971 \<or> x < 2 ^ 53 * 2 ^ m"
  shows "ulp_of x = 2 ^ m"
proof -
  have e: "min_ulp * 2 ^ (1074 + m) = 2 ^ m"
    unfolding min_ulp_def by (simp add: power_add)
  have "ulp_scan 2045 min_ulp x = min_ulp * 2 ^ (1074 + m)"
  proof (rule ulp_scan_eq [OF min_ulp_pos])
    show "1074 + m \<le> 2045" using assms(1) by simp
    show "1074 + m = 0 \<or> min_ulp * 2 ^ (1074 + m) * 2 ^ 52 \<le> x"
      using lo unfolding e by (simp add: mult.commute)
    show "1074 + m = 2045 \<or> x < min_ulp * 2 ^ (1074 + m) * 2 ^ 53"
      using hi assms(1) unfolding e by (auto simp: mult.commute)
  qed
  then show ?thesis by (simp add: ulp_of_def e)
qed

lemma round_pos_int_exact:
  assumes "0 < n" "n < 2 ^ 53"
  shows "round_pos (of_int n) = of_int n"
proof -
  obtain k where k: "k \<le> 2045" "ulp_of (of_int n) = min_ulp * 2 ^ k"
    using ulp_of_pow by blast
  have "k \<le> 1074"
  proof (rule ccontr)
    assume "\<not> k \<le> 1074"
    then have "1075 \<le> k" by simp
    then have "(2::rat) ^ 1075 \<le> 2 ^ k"
      by (intro power_increasing) simp_all
    then have two: "2 \<le> ulp_of (of_int n)"
      unfolding k(2) min_ulp_def by (simp add: field_simps)
    have "min_ulp < 2" by (simp add: min_ulp_def field_simps)
    with two have "min_ulp < ulp_of (of_int n)" by simp
    then have "ulp_of (of_int n) * 2 ^ 52 \<le> of_int n"
      by (rule ulp_of_lower)
    with two have "(2::rat) * 2 ^ 52 \<le> of_int n" by simp
    then have "(of_int (2 ^ 53) :: rat) \<le> of_int n" by simp
    then have "2 ^ 53 \<le> n" by (simp only: of_int_le_iff)
    with assms show False by simp
  qed
  then have "(2::rat) ^ (1074 - k) * 2 ^ k = 2 ^ 1074"
    by (simp flip: power_add)
  then have u: "ulp_of (of_int n) = 1 / 2 ^ (1074 - k)"
    unfolding k(2) min_ulp_def by (simp add: field_simps)
  have "of_int n / ulp_of (of_int n) = (of_int (n * 2 ^ (1074 - k)) :: rat)"
    unfolding u by simp
  then have "round_half_even (of_int n / ulp_of (of_int n)) = n * 2 ^ (1074 - k)"
    by (simp only: rhe_of_int)
  then show ?thesis
    unfolding round_pos_def u by simp
qed

lemma max_f64_big: "2 ^ 63 < max_f64"
  unfolding max_f64_def by (rule power_strict_increasing) simp_all

lemma round64_int_exact:
  assumes "0 \<le> n" "n < 2 ^ 53"
  shows "round64 (of_int n) = Fin (of_int n)"
proof (cases "n = 0")
  case True
  then show ?thesis by (simp add: round64_def)
next
  case False
  with assms have pos: "0 < n" by simp
  have "(of_int n :: rat) < of_int (2 ^ 53)"
    using assms(2) by (simp only: of_int_less_iff)
  also have "\<dots> \<le> 2 ^ 63" by simp
  finally have "(of_int n :: rat) < max_f64" using max_f64_big by simp
  with pos show ?thesis
    by (simp add: round64_def round_pos_int_exact [OF pos assms(2)])
qed

lemma round_pos_2p63: "round_pos (2 ^ 63) = 2 ^ 63"
proof -
  have u: "ulp_of (2 ^ 63) = 2 ^ 11"
    by (rule ulp_of_eq_pos) simp_all
  have "(2::rat) ^ 63 / 2 ^ 11 = of_int (2 ^ 52)" by simp
  then have "round_half_even (2 ^ 63 / 2 ^ 11) = 2 ^ 52"
    by (simp only: rhe_of_int)
  then show ?thesis unfolding round_pos_def u by simp
qed

section \<open>Rounding around one twentieth\<close>

lemma rhe_eqI:
  assumes "of_int n - 1 / 2 < q" "q < of_int n + 1 / 2"
  shows "round_half_even q = n"
proof -
  have "\<lfloor>q\<rfloor> = n \<or> \<lfloor>q\<rfloor> = n - 1"
    using assms by linarith
  then show ?thesis
  proof
    assume f: "\<lfloor>q\<rfloor> = n"
    with assms show ?thesis
      by (simp add: round_half_even_def Let_def)
  next
    assume f: "\<lfloor>q\<rfloor> = n - 1"
    with assms show ?thesis
      by (simp add: round_half_even_def Let_def)
  qed
qed

lemma round_pos_twentieth: "round_pos (1 / 20) = 7205759403792794 / 2 ^ 57"
proof -
  have u: "ulp_of (1 / 20) = 1 / 2 ^ 57"
    by (rule ulp_of_eq_neg) simp_all
  have "round_half_even (1 / 20 / (1 / 2 ^ 57)) = 7205759403792794"
    by (rule rhe_eqI) simp_all
  then show ?thesis unfolding round_pos_def u by simp
qed

lemma round_pos_five: "round_pos (7205759403792794 / 2 ^ 57 * 100) = 5"
proof -
  have u: "ulp_of (7205759403792794 / 2 ^ 57 * 100) = 1 / 2 ^ 50"
    by (rule ulp_of_eq_neg) simp_all
  have "round_half_even (7205759403792794 / 2 ^ 57 * 100 / (1 / 2 ^ 50)) = 5629499534213120"
    by (rule rhe_eqI) simp_all
  then show ?thesis unfolding round_pos_def u by simp
qed

lemma round_pos_above_twentieth:
  "round_pos (1 / 20 + 1 / (20 * 2 ^ 52)) = 7205759403792795 / 2 ^ 57"
proof -
  have u: "ulp_of (1 / 20 + 1 / (20 * 2 ^ 52)) = 1 / 2 ^ 57"
    by (rule ulp_of_eq_neg) simp_all
  have "round_half_even ((1 / 20 + 1 / (20 * 2 ^ 52)) / (1 / 2 ^ 57)) = 7205759403792795"
    by (rule rhe_eqI) simp_all
  then show ?thesis unfolding round_pos_def u by simp
qed

lemma round_pos_above_five:
  "round_pos (7205759403792795 / 2 ^ 57 * 100) = 5629499534213121 / 2 ^ 50"
proof -
  have u: "ulp_of (7205759403792795 / 2 ^ 57 * 100) = 1 / 2 ^ 50"
    by (rule ulp_of_eq_neg) simp_all
  have "round_half_even (7205759403792795 / 2 ^ 57 * 100 / (1 / 2 ^ 50)) = 5629499534213121"
    by (rule rhe_eqI) simp_all
  then show ?thesis unfolding round_pos_def u by simp
qed

section \<open>Arithmetic on \<open>float64\<close> is monotone\<close>

lemma f64_le_Fin_FinD:
  "f64_le (Fin a) x \<Longrightarrow> f64_le x (Fin b) \<Longrightarrow> \<exists>v. x = Fin v \<and> a \<le> v \<and> v \<le> b"
  by (cases x) simp_all

lemma f64_le_not_NaN: "f64_le a b \<Longrightarrow> a \<noteq> NaN \<and> b \<noteq> NaN"
  by (cases a; cases b) simp_all

lemma f64_gt_le_trans: "f64_gt a c \<Longrightarrow> f64_le a b \<Longrightarrow> f64_gt b c"
  by (cases a; cases b; cases c) simp_all

lemma f64_le_gt_contra: "f64_le a (Fin y) \<Longrightarrow> \<not> f64_gt a (Fin y)"
  by (cases a) simp_all

lemma f64_div_mono:
  assumes "f64_le a b" "0 < y"
  shows "f64_le (f64_div a (Fin y)) (f64_div b (Fin y))"
proof (cases a)
  case (Fin x)
  note a = this
  show ?thesis
  proof (cases b)
    case (Fin x')
    with a assms have "x / y \<le> x' / y" by (simp add: divide_right_mono)
    then have "f64_le (round64 (x / y)) (round64 (x' / y))" by (rule round64_mono)
    with a Fin assms show ?thesis by simp
  next
    case PInf
    with a assms show ?thesis
      by (cases "round64 (x / y)") (simp_all add: round64_not_NaN)
  qed (use a assms in simp_all)
next
  case NInf
  with assms show ?thesis
    by (cases b; cases "f64_div b (Fin y)") (simp_all add: round64_not_NaN)
next
  case PInf
  with assms show ?thesis by (cases b) simp_all
next
  case NaN
  with assms show ?thesis by simp
qed

lemma f64_mul_mono:
  assumes "f64_le a b" "0 < y"
  shows "f64_le (f64_mul a (Fin y)) (f64_mul b (Fin y))"
proof (cases a)
  case (Fin x)
  note a = this
  show ?thesis
  proof (cases b)
    case (Fin x')
    with a assms have "x * y \<le> x' * y" by (simp add: mult_right_mono)
    then have "f64_le (round64 (x * y)) (round64 (x' * y))" by (rule round64_mono)
    with a Fin assms show ?thesis by simp
  next
    case PInf
    with a assms show ?thesis
      by (cases "round64 (x * y)") (simp_all add: round64_not_NaN)
  qed (use a assms in simp_all)
next
  case NInf
  with assms show ?thesis
    by (cases b; cases "f64_mul b (Fin y)") (simp_all add: round64_not_NaN)
next
  case PInf
  with assms show ?thesis by (cases b) simp_all
next
  case NaN
  with assms show ?thesis by simp
qed

lemma round64_zero: "round64 0 = Fin 0"
  by (simp add: round64_def)

lemma round64_pos_Fin: "0 < x \<Longrightarrow> round_pos x < max_f64 \<Longrightarrow> round64 x = Fin (round_pos x)"
  by (simp add: round64_def)

lemma round64_neg_Fin:
  "0 < x \<Longrightarrow> round_pos x < max_f64 \<Longrightarrow> round64 (- x) = Fin (- round_pos x)"
  by (simp add: round64_def)

lemma round64_2p63: "round64 (2 ^ 63) = Fin (2 ^ 63)"
proof -
  have "(0::rat) < 2 ^ 63" by (rule zero_less_power) simp
  moreover have "round_pos (2 ^ 63) < max_f64"
    unfolding round_pos_2p63 by (rule max_f64_big)
  ultimately have "round64 (2 ^ 63) = Fin (round_pos (2 ^ 63))"
    by (rule round64_pos_Fin)
  then show ?thesis unfolding round_pos_2p63 .
qed

lemma round64_neg_2p63: "round64 (- (2 ^ 63)) = Fin (- (2 ^ 63))"
proof -
  have "(0::rat) < 2 ^ 63" by (rule zero_less_power) simp
  moreover have "round_pos (2 ^ 63) < max_f64"
    unfolding round_pos_2p63 by (rule max_f64_big)
  ultimately have "round64 (- (2 ^ 63)) = Fin (- round_pos (2 ^ 63))"
    by (rule round64_neg_Fin)
  then show ?thesis unfolding round_pos_2p63 .
qed

lemma float64_mono:
  assumes "sint a \<le> sint b"
  shows "f64_le (float64 a) (float64 b)"
proof -
  have "(of_int (sint a) :: rat) \<le> of_int (sint b)"
    using assms by (simp only: of_int_le_iff)
  then show ?thesis unfolding float64_def by (rule round64_mono)
qed

lemma sint64_range: "- (2 ^ 63) \<le> sint (w :: int64) \<and> sint w < 2 ^ 63"
  using sint_ge [of w] sint_lt [of w] by simp

lemma float64_finite: "\<exists>v. float64 w = Fin v \<and> - (2 ^ 63) \<le> v \<and> v \<le> 2 ^ 63"
proof -
  have "(- (2 ^ 63) :: rat) \<le> of_int (sint w)"
    using sint64_range [of w] by (metis of_int_le_iff of_int_minus of_int_numeral of_int_power)
  then have lo: "f64_le (Fin (- (2 ^ 63))) (float64 w)"
    unfolding float64_def using round64_mono [of "- (2 ^ 63)" "of_int (sint w)"]
    by (simp only: round64_neg_2p63)
  have "(of_int (sint w) :: rat) \<le> 2 ^ 63"
    using sint64_range [of w] by (metis less_imp_le of_int_le_iff of_int_numeral of_int_power)
  then have hi: "f64_le (float64 w) (Fin (2 ^ 63))"
    unfolding float64_def using round64_mono [of "of_int (sint w)" "2 ^ 63"]
    by (simp only: round64_2p63)
  from f64_le_Fin_FinD [OF lo hi] show ?thesis .
qed

lemma float64_exact:
  assumes "0 \<le> sint w" "sint w < 2 ^ 53"
  shows "float64 w = Fin (of_int (sint w))"
  unfolding float64_def using assms by (rule round64_int_exact)

lemma round64_one: "round64 1 = Fin 1"
  using round64_int_exact [of 1] by simp

lemma float64_pos:
  assumes "0 < sint w"
  shows "\<exists>v. float64 w = Fin v \<and> 1 \<le> v"
proof -
  obtain v where v: "float64 w = Fin v" using float64_finite by blast
  have "(of_int 1 :: rat) \<le> of_int (sint w)"
    using assms by (simp only: of_int_le_iff)
  then have "f64_le (round64 (of_int 1)) (round64 (of_int (sint w)))"
    by (rule round64_mono)
  then have "f64_le (Fin 1) (float64 w)"
    unfolding float64_def by (simp add: round64_one)
  with v show ?thesis by simp
qed

lemma float64_nonpos:
  assumes "sint w \<le> 0"
  shows "\<exists>v. float64 w = Fin v \<and> v \<le> 0"
proof -
  obtain v where v: "float64 w = Fin v" using float64_finite by blast
  have "(of_int (sint w) :: rat) \<le> of_int 0"
    using assms by (simp only: of_int_le_iff)
  then have "f64_le (round64 (of_int (sint w))) (round64 (of_int 0))"
    by (rule round64_mono)
  then have "f64_le (float64 w) (Fin 0)"
    unfolding float64_def by (simp add: round64_zero)
  with v show ?thesis by simp
qed

section \<open>The percentage at and just above five percent\<close>

lemma round64_twentieth: "round64 (1 / 20) = Fin (7205759403792794 / 2 ^ 57)"
proof -
  have "(0::rat) < 1 / 20" by simp
  moreover have "round_pos (1 / 20) < max_f64"
    unfolding round_pos_twentieth using max_f64_big by simp
  ultimately have "round64 (1 / 20) = Fin (round_pos (1 / 20))"
    by (rule round64_pos_Fin)
  then show ?thesis unfolding round_pos_twentieth .
qed

lemma round64_five: "round64 (7205759403792794 / 2 ^ 57 * 100) = Fin 5"
proof -
  have "(0::rat) < 7205759403792794 / 2 ^ 57 * 100" by simp
  moreover have "round_pos (7205759403792794 / 2 ^ 57 * 100) < max_f64"
    unfolding round_pos_five using max_f64_big by simp
  ultimately have "round64 (7205759403792794 / 2 ^ 57 * 100)
      = Fin (round_pos (7205759403792794 / 2 ^ 57 * 100))"
    by (rule round64_pos_Fin)
  then show ?thesis unfolding round_pos_five .
qed

lemma round64_above_twentieth:
  "round64 (1 / 20 + 1 / (20 * 2 ^ 52)) = Fin (7205759403792795 / 2 ^ 57)"
proof -
  have "(0::rat) < 1 / 20 + 1 / (20 * 2 ^ 52)" by simp
  moreover have "round_pos (1 / 20 + 1 / (20 * 2 ^ 52)) < max_f64"
    unfolding round_pos_above_twentieth using max_f64_big by simp
  ultimately have "round64 (1 / 20 + 1 / (20 * 2 ^ 52))
      = Fin (round_pos (1 / 20 + 1 / (20 * 2 ^ 52)))"
    by (rule round64_pos_Fin)
  then show ?thesis unfolding round_pos_above_twentieth .
qed

lemma round64_above_five:
  "round64 (7205759403792795 / 2 ^ 57 * 100) = Fin (5629499534213121 / 2 ^ 50)"
proof -
  have "(0::rat) < 7205759403792795 / 2 ^ 57 * 100" by simp
  moreover have "round_pos (7205759403792795 / 2 ^ 57 * 100) < max_f64"
    unfolding round_pos_above_five using max_f64_big by simp
  ultimately have "round64 (7205759403792795 / 2 ^ 57 * 100)
      = Fin (round_pos (7205759403792795 / 2 ^ 57 * 100))"
    by (rule round64_pos_Fin)
  then show ?thesis unfolding round_pos_above_five .
qed

lemma pct_mono: "q \<le> q' \<Longrightarrow> f64_le (pct q) (pct q')"
  unfolding pct_def by (intro f64_mul_mono round64_mono) simp_all

lemma pct_twentieth: "pct (1 / 20) = Fin 5"
  unfolding pct_def round64_twentieth by (simp only: f64_mul.simps round64_five)

lemma pct_above_twentieth: "pct (1 / 20 + 1 / (20 * 2 ^ 52)) = Fin (5629499534213121 / 2 ^ 50)"
  unfolding pct_def round64_above_twentieth by (simp only: f64_mul.simps round64_above_five)

lemma pct_le_twentieth: "q \<le> 1 / 20 \<Longrightarrow> \<not> f64_gt (pct q) (Fin 5)"
  using pct_mono [of q "1 / 20"] by (simp add: pct_twentieth f64_le_gt_contra)

lemma pct_ge_above: 
  assumes "1 / 20 + 1 / (20 * 2 ^ 52) \<le> q"
  shows "f64_gt (pct q) (Fin 5)"
proof -
  have "f64_gt (pct (1 / 20 + 1 / (20 * 2 ^ 52))) (Fin 5)"
    unfolding pct_above_twentieth by simp
  then show ?thesis
    using pct_mono [OF assms] by (rule f64_gt_le_trans)
qed

lemma percentage_exact:
  assumes "0 \<le> sint (BytesCompleted (Torrent c))" "sint (BytesCompleted (Torrent c)) < 2 ^ 53"
    and "0 < sint (Length (Torrent c))" "sint (Length (Torrent c)) < 2 ^ 53"
  shows "percentage c
    = pct (of_int (sint (BytesCompleted (Torrent c))) / of_int (sint (Length (Torrent c))))"
proof -
  have "float64 (BytesCompleted (Torrent c)) = Fin (of_int (sint (BytesCompleted (Torrent c))))"
    using assms(1,2) by (rule float64_exact)
  moreover have "float64 (Length (Torrent c)) = Fin (of_int (sint (Length (Torrent c))))"
    using assms(3,4) by (intro float64_exact) simp_all
  moreover have "(of_int (sint (Length (Torrent c))) :: rat) \<noteq> 0"
    using assms(3) by (simp only: of_int_eq_0_iff)
  ultimately show ?thesis
    unfolding percentage_def pct_def by (simp only: f64_div.simps if_False)
qed

lemma ready_at_6_of_100:
  "ReadyForPlayback (zero_Client\<lparr>Torrent := zero_Torrent\<lparr>Length := 100, BytesCompleted := 6\<rparr>\<rparr>)"
proof -
  have "percentage (zero_Client\<lparr>Torrent := zero_Torrent\<lparr>Length := 100, BytesCompleted := 6\<rparr>\<rparr>)
      = pct (6 / 100)"
    by (simp add: percentage_def pct_def float64_exact)
  moreover have "f64_gt (pct (6 / 100)) (Fin 5)"
    by (rule pct_ge_above) simp
  ultimately show ?thesis by (simp add: ReadyForPlayback_def)
qed

section \<open>Readiness for playback\<close>

text \<open>
  Claim C1, as the code has it. \<open>ReadyForPlayback\<close> is \<open>percentage() > 5\<close>, a strict
  comparison: for a session with \<open>0 \<le> bytesCompleted < 2 ^ 53\<close> and
  \<open>0 < totalLength \<le> 2 ^ 52\<close> (lengths that \<open>float64\<close> holds exactly, and for which the
  two roundings of \<open>percentage\<close> cannot hide a fraction above 5%), the result is true
  exactly when \<open>bytesCompleted / totalLength\<close> is strictly greater than \<open>0.05\<close>. At
  exactly 5% it is false.
\<close>

theorem ReadyForPlayback_iff_above_5_percent:
  assumes b: "0 \<le> sint (BytesCompleted (Torrent c))" "sint (BytesCompleted (Torrent c)) < 2 ^ 53"
    and l: "0 < sint (Length (Torrent c))" "sint (Length (Torrent c)) \<le> 2 ^ 52"
  shows "ReadyForPlayback c
    \<longleftrightarrow> (5 / 100 :: rat) < of_int (sint (BytesCompleted (Torrent c))) / of_int (sint (Length (Torrent c)))"
proof -
  define B where "B = sint (BytesCompleted (Torrent c))"
  define L where "L = sint (Length (Torrent c))"
  from b l have B: "0 \<le> B" "B < 2 ^ 53" and L: "0 < L" "L \<le> 2 ^ 52"
    by (simp_all add: B_def L_def)
  have Lr: "(0::rat) < of_int L" using L(1) by simp
  have p: "percentage c = pct (of_int B / of_int L)"
    unfolding B_def L_def using b l by (intro percentage_exact) simp_all
  have iff: "(5 / 100 :: rat) < of_int B / of_int L \<longleftrightarrow> L < 20 * B"
  proof -
    have "(5 / 100 :: rat) < of_int B / of_int L \<longleftrightarrow> (of_int L :: rat) < of_int (20 * B)"
      using Lr by (simp add: field_simps)
    then show ?thesis by (simp only: of_int_less_iff)
  qed
  show ?thesis
  proof (cases "L < 20 * B")
    case True
    then have "L * (2 ^ 52 + 1) \<le> 20 * B * 2 ^ 52"
      using L by simp
    then have "(of_int (L * (2 ^ 52 + 1)) :: rat) \<le> of_int (20 * B * 2 ^ 52)"
      by (simp only: of_int_le_iff)
    then have "(1 / 20 + 1 / (20 * 2 ^ 52) :: rat) \<le> of_int B / of_int L"
      using Lr by (simp add: field_simps)
    then have "f64_gt (pct (of_int B / of_int L)) (Fin 5)"
      by (rule pct_ge_above)
    with True iff p show ?thesis
      by (simp add: ReadyForPlayback_def B_def L_def)
  next
    case False
    then have "(of_int (20 * B) :: rat) \<le> of_int L"
      by (simp only: of_int_le_iff)
    then have "of_int B / of_int L \<le> (1 / 20 :: rat)"
      using Lr by (simp add: field_simps)
    then have "\<not> f64_gt (pct (of_int B / of_int L)) (Fin 5)"
      by (rule pct_le_twentieth)
    with False iff p show ?thesis
      by (simp add: ReadyForPlayback_def B_def L_def)
  qed
qed

theorem ReadyForPlayback_iff_above_5_percent_witness:
  "ReadyForPlayback (zero_Client\<lparr>Torrent := zero_Torrent\<lparr>Length := 100, BytesCompleted := 6\<rparr>\<rparr>)
   \<and> \<not> ReadyForPlayback (zero_Client\<lparr>Torrent := zero_Torrent\<lparr>Length := 100, BytesCompleted := 5\<rparr>\<rparr>)"
  using ReadyForPlayback_iff_above_5_percent
      [of "zero_Client\<lparr>Torrent := zero_Torrent\<lparr>Length := 100, BytesCompleted := 6\<rparr>\<rparr>"]
    ReadyForPlayback_iff_above_5_percent
      [of "zero_Client\<lparr>Torrent := zero_Torrent\<lparr>Length := 100, BytesCompleted := 5\<rparr>\<rparr>"]
  by simp

text \<open>
  Claim C1 as the specification states it asks for \<open>true\<close> at exactly 5%. With 5 bytes
  of 100 completed the fraction is \<open>0.05\<close>, \<open>percentage()\<close> is \<open>5.0\<close>, and the result is false.
\<close>

theorem ReadyForPlayback_at_5_percent_counterexample:
  "spec_ready 5 100
   \<and> \<not> ReadyForPlayback (zero_Client\<lparr>Torrent := zero_Torrent\<lparr>Length := 100, BytesCompleted := 5\<rparr>\<rparr>)"
proof -
  have "percentage (zero_Client\<lparr>Torrent := zero_Torrent\<lparr>Length := 100, BytesCompleted := 5\<rparr>\<rparr>)
      = pct (1 / 20)"
    by (simp add: percentage_def pct_def float64_exact)
  then show ?thesis
    by (simp add: ReadyForPlayback_def pct_twentieth spec_ready_def)
qed

text \<open>
  Claim C7. Within a session (one total length, not negative), if \<open>ReadyForPlayback\<close> is true at
  some \<open>bytesCompleted\<close> then it is true at every \<open>bytesCompleted\<close> that is not smaller:
  conversion, division by the length, multiplication by 100 and their roundings are all
  monotone, also when the length is zero and the quotient is infinite or NaN.
\<close>

theorem ReadyForPlayback_monotone:
  assumes ready: "ReadyForPlayback c"
    and same: "Length (Torrent c') = Length (Torrent c)"
    and len: "0 \<le> sint (Length (Torrent c))"
    and grow: "sint (BytesCompleted (Torrent c)) \<le> sint (BytesCompleted (Torrent c'))"
  shows "ReadyForPlayback c'"
proof -
  have le: "f64_le (float64 (BytesCompleted (Torrent c))) (float64 (BytesCompleted (Torrent c')))"
    using grow by (rule float64_mono)
  show ?thesis
  proof (cases "0 < sint (Length (Torrent c))")
    case True
    then obtain v where v: "float64 (Length (Torrent c)) = Fin v" "1 \<le> v"
      using float64_pos by blast
    then have "0 < v" by simp
    with le have "f64_le (percentage c) (percentage c')"
      unfolding percentage_def same v(1) by (intro f64_mul_mono f64_div_mono) simp_all
    with ready show ?thesis
      unfolding ReadyForPlayback_def by (rule f64_gt_le_trans)
  next
    case False
    with len have "sint (Length (Torrent c)) = 0" by simp
    then have z: "float64 (Length (Torrent c)) = Fin 0"
      using float64_exact [of "Length (Torrent c)"] by simp
    obtain x where x: "float64 (BytesCompleted (Torrent c)) = Fin x"
      using float64_finite by blast
    obtain y where y: "float64 (BytesCompleted (Torrent c')) = Fin y"
      using float64_finite by blast
    from ready have "0 < x"
      unfolding ReadyForPlayback_def percentage_def z x by (simp split: if_splits)
    moreover from le have "x \<le> y" unfolding x y by simp
    ultimately have "0 < y" by simp
    then show ?thesis
      unfolding ReadyForPlayback_def percentage_def same z y by simp
  qed
qed

theorem ReadyForPlayback_monotone_witness:
  "ReadyForPlayback (zero_Client\<lparr>Torrent := zero_Torrent\<lparr>Length := 100, BytesCompleted := 6\<rparr>\<rparr>)
   \<and> ReadyForPlayback (zero_Client\<lparr>Torrent := zero_Torrent\<lparr>Length := 100, BytesCompleted := 7\<rparr>\<rparr>)"
proof -
  note r = ready_at_6_of_100
  from ReadyForPlayback_monotone [OF r,
      of "zero_Client\<lparr>Torrent := zero_Torrent\<lparr>Length := 100, BytesCompleted := 7\<rparr>\<rparr>"] r
  show ?thesis by simp
qed

section \<open>The initial readahead\<close>








section \<open>Teardown\<close>

text \<open>
  Claim C5. \<open>Close\<close> makes two calls into the engine, in this order: \<open>Torrent.Drop\<close>,
  then \<open>Client.Close\<close>. The log of calls grows by exactly these two.
\<close>

theorem Close_drops_before_closing:
  "Close c calls = calls @ [Call_Drop, Call_Close]"
  by (simp add: Close_def)

section \<open>Construction\<close>

lemma isHTTP_not_magnet: "isHTTP_MatchString s \<Longrightarrow> \<not> HasPrefix s ''magnet:''"
  by (auto simp: isHTTP_MatchString_def HasPrefix_def prefix_def)

text \<open>
  Claim C6. Each failure that \<open>NewClient\<close> can meet ends the construction with a
  \<open>ClientError\<close> that names it and carries the library's error as its origin: the
  engine cannot be created; the magnet link cannot be added; the remote torrent file
  cannot be downloaded; the torrent file (local, or just downloaded) is not found; the
  torrent file cannot be added. Whenever an error is returned it is a \<open>ClientError\<close>,
  the client returned with it has no torrent, and no goroutine has been started.
\<close>

theorem NewClient_construction_errors:
  "(torrent_NewClient e \<lparr>DataDir = os_TempDir e, NoUpload = \<not> seed, Seed = seed\<rparr> = Inl err \<longrightarrow>
      NewClient e torrentPath port seed
        = (zero_Client\<lparr>Port := port\<rparr>, Some (ClientError ''creating torrent client'' err), []))
   \<and> (torrent_NewClient e \<lparr>DataDir = os_TempDir e, NoUpload = \<not> seed, Seed = seed\<rparr> = Inr c \<longrightarrow>
       (HasPrefix torrentPath ''magnet:'' \<and> AddMagnet e c torrentPath = Inl err \<longrightarrow>
          NewClient e torrentPath port seed
            = (zero_Client\<lparr>Port := port, Client := Some c\<rparr>,
               Some (ClientError ''adding torrent'' err), []))
     \<and> (\<not> HasPrefix torrentPath ''magnet:'' \<and> isHTTP_MatchString torrentPath
          \<and> snd (fst (downloadFile e torrentPath)) = Some err \<longrightarrow>
          NewClient e torrentPath port seed
            = (zero_Client\<lparr>Port := port, Client := Some c\<rparr>,
               Some (ClientError ''downloading torrent file'' err), []))
     \<and> (\<not> HasPrefix torrentPath ''magnet:''
          \<and> (if isHTTP_MatchString torrentPath then fst (downloadFile e torrentPath)
               else (torrentPath, None)) = (path, None)
          \<and> os_Stat e path = Some err \<longrightarrow>
          NewClient e torrentPath port seed
            = (zero_Client\<lparr>Port := port, Client := Some c\<rparr>,
               Some (ClientError ''file not found'' err), []))
     \<and> (\<not> HasPrefix torrentPath ''magnet:''
          \<and> (if isHTTP_MatchString torrentPath then fst (downloadFile e torrentPath)
               else (torrentPath, None)) = (path, None)
          \<and> os_Stat e path = None \<and> AddTorrentFromFile e c path = Inl err \<longrightarrow>
          NewClient e torrentPath port seed
            = (zero_Client\<lparr>Port := port, Client := Some c\<rparr>,
               Some (ClientError ''adding torrent to the client'' err), [])))
   \<and> (fst (snd (NewClient e torrentPath port seed)) \<noteq> None \<longrightarrow>
        Torrent (fst (NewClient e torrentPath port seed)) = zero_Torrent
        \<and> snd (snd (NewClient e torrentPath port seed)) = []
        \<and> (\<exists>ty origin. fst (snd (NewClient e torrentPath port seed)) = Some (ClientError ty origin)))"
proof -
  let ?cfg = "\<lparr>DataDir = os_TempDir e, NoUpload = \<not> seed, Seed = seed\<rparr>"
  let ?R = "NewClient e torrentPath port seed"
  have 1: "?R = (zero_Client\<lparr>Port := port\<rparr>, Some (ClientError ''creating torrent client'' err), [])"
    if "torrent_NewClient e ?cfg = Inl err"
    using that by (simp add: NewClient_def)
  have 2: "?R = (zero_Client\<lparr>Port := port, Client := Some c\<rparr>,
               Some (ClientError ''adding torrent'' err), [])"
    if "torrent_NewClient e ?cfg = Inr c" "HasPrefix torrentPath ''magnet:''"
      "AddMagnet e c torrentPath = Inl err"
    using that by (simp add: NewClient_def)
  have 3: "?R = (zero_Client\<lparr>Port := port, Client := Some c\<rparr>,
               Some (ClientError ''downloading torrent file'' err), [])"
    if "torrent_NewClient e ?cfg = Inr c" "\<not> HasPrefix torrentPath ''magnet:''"
      "isHTTP_MatchString torrentPath" "snd (fst (downloadFile e torrentPath)) = Some err"
    using that by (cases "fst (downloadFile e torrentPath)") (simp add: NewClient_def)
  have 4: "?R = (zero_Client\<lparr>Port := port, Client := Some c\<rparr>,
               Some (ClientError ''file not found'' err), [])"
    if "torrent_NewClient e ?cfg = Inr c" "\<not> HasPrefix torrentPath ''magnet:''"
      "(if isHTTP_MatchString torrentPath then fst (downloadFile e torrentPath)
               else (torrentPath, None)) = (path, None)" "os_Stat e path = Some err"
    using that by (simp add: NewClient_def)
  have 5: "?R = (zero_Client\<lparr>Port := port, Client := Some c\<rparr>,
               Some (ClientError ''adding torrent to the client'' err), [])"
    if "torrent_NewClient e ?cfg = Inr c" "\<not> HasPrefix torrentPath ''magnet:''"
      "(if isHTTP_MatchString torrentPath then fst (downloadFile e torrentPath)
               else (torrentPath, None)) = (path, None)" "os_Stat e path = None"
      "AddTorrentFromFile e c path = Inl err"
    using that by (simp add: NewClient_def)
  have 6: "Torrent (fst ?R) = zero_Torrent \<and> snd (snd ?R) = []
        \<and> (\<exists>ty origin. fst (snd ?R) = Some (ClientError ty origin))"
    if failed: "fst (snd ?R) \<noteq> None"
  proof (cases "torrent_NewClient e ?cfg")
    case (Inl x)
    then show ?thesis by (simp add: NewClient_def zero_Client_def)
  next
    case (Inr c)
    show ?thesis
    proof (cases "HasPrefix torrentPath ''magnet:''")
      case True
      with Inr failed show ?thesis
        by (cases "AddMagnet e c torrentPath") (simp_all add: NewClient_def zero_Client_def)
    next
      case False
      obtain path oe where d:
        "(if isHTTP_MatchString torrentPath then fst (downloadFile e torrentPath)
          else (torrentPath, None)) = (path, oe)"
        by (cases "if isHTTP_MatchString torrentPath then fst (downloadFile e torrentPath)
          else (torrentPath, None)") blast
      show ?thesis
      proof (cases oe)
        case (Some x)
        with Inr False d show ?thesis by (simp add: NewClient_def zero_Client_def)
      next
        case None
        with Inr False d failed show ?thesis
          by (cases "os_Stat e path"; cases "AddTorrentFromFile e c path")
            (simp_all add: NewClient_def zero_Client_def)
      qed
    qed
  qed
  from 1 2 3 4 5 6 show ?thesis by blast
qed

theorem NewClient_construction_errors_witness:
  "NewClient (example_env\<lparr>torrent_NewClient := (\<lambda>cfg. Inl (LibraryError ''listen: address in use''))\<rparr>)
      ''film.torrent'' 8080 False
     = (zero_Client\<lparr>Port := 8080\<rparr>,
        Some (ClientError ''creating torrent client'' (LibraryError ''listen: address in use'')), [])
   \<and> NewClient (example_env\<lparr>AddMagnet := (\<lambda>c uri. Inl (LibraryError ''bad magnet''))\<rparr>)
      ''magnet:?xt=0'' 8080 False
     = (zero_Client\<lparr>Port := 8080,
                     Client := Some (Engine \<lparr>DataDir = ''/tmp'', NoUpload = True, Seed = False\<rparr>)\<rparr>,
        Some (ClientError ''adding torrent'' (LibraryError ''bad magnet'')), [])
   \<and> NewClient (example_env\<lparr>http_Get := (\<lambda>url. Inl (LibraryError ''no such host''))\<rparr>)
      ''http://example.org/film.torrent'' 8080 False
     = (zero_Client\<lparr>Port := 8080,
                     Client := Some (Engine \<lparr>DataDir = ''/tmp'', NoUpload = True, Seed = False\<rparr>)\<rparr>,
        Some (ClientError ''downloading torrent file'' (LibraryError ''no such host'')), [])
   \<and> NewClient (example_env\<lparr>os_Stat := (\<lambda>path. Some (LibraryError ''no such file''))\<rparr>)
      ''film.torrent'' 8080 False
     = (zero_Client\<lparr>Port := 8080,
                     Client := Some (Engine \<lparr>DataDir = ''/tmp'', NoUpload = True, Seed = False\<rparr>)\<rparr>,
        Some (ClientError ''file not found'' (LibraryError ''no such file'')), [])
   \<and> NewClient (example_env\<lparr>AddTorrentFromFile := (\<lambda>c path. Inl (LibraryError ''bad bencode''))\<rparr>)
      ''film.torrent'' 8080 False
     = (zero_Client\<lparr>Port := 8080,
                     Client := Some (Engine \<lparr>DataDir = ''/tmp'', NoUpload = True, Seed = False\<rparr>)\<rparr>,
        Some (ClientError ''adding torrent to the client'' (LibraryError ''bad bencode'')), [])"
proof -
  let ?cfg = "\<lparr>DataDir = ''/tmp'', NoUpload = True, Seed = False\<rparr>"
  have 1: "NewClient (example_env\<lparr>torrent_NewClient := (\<lambda>cfg. Inl (LibraryError ''listen: address in use''))\<rparr>)
      ''film.torrent'' 8080 False
     = (zero_Client\<lparr>Port := 8080\<rparr>,
        Some (ClientError ''creating torrent client'' (LibraryError ''listen: address in use'')), [])"
    using NewClient_construction_errors
      [of "example_env\<lparr>torrent_NewClient := (\<lambda>cfg. Inl (LibraryError ''listen: address in use''))\<rparr>"
          False "LibraryError ''listen: address in use''" "''film.torrent''" 8080]
    by (simp add: example_env_def)
  have 2: "NewClient (example_env\<lparr>AddMagnet := (\<lambda>c uri. Inl (LibraryError ''bad magnet''))\<rparr>)
      ''magnet:?xt=0'' 8080 False
     = (zero_Client\<lparr>Port := 8080, Client := Some (Engine ?cfg)\<rparr>,
        Some (ClientError ''adding torrent'' (LibraryError ''bad magnet'')), [])"
    using NewClient_construction_errors
      [of "example_env\<lparr>AddMagnet := (\<lambda>c uri. Inl (LibraryError ''bad magnet''))\<rparr>"
          False "LibraryError ''bad magnet''" "''magnet:?xt=0''" 8080 "Engine ?cfg"]
    by (simp add: example_env_def HasPrefix_def)
  have 3: "NewClient (example_env\<lparr>http_Get := (\<lambda>url. Inl (LibraryError ''no such host''))\<rparr>)
      ''http://example.org/film.torrent'' 8080 False
     = (zero_Client\<lparr>Port := 8080, Client := Some (Engine ?cfg)\<rparr>,
        Some (ClientError ''downloading torrent file'' (LibraryError ''no such host'')), [])"
    using NewClient_construction_errors
      [of "example_env\<lparr>http_Get := (\<lambda>url. Inl (LibraryError ''no such host''))\<rparr>"
          False "LibraryError ''no such host''" "''http://example.org/film.torrent''" 8080 "Engine ?cfg"]
    by (simp add: example_env_def HasPrefix_def isHTTP_MatchString_def downloadFile_def)
  have 4: "NewClient (example_env\<lparr>os_Stat := (\<lambda>path. Some (LibraryError ''no such file''))\<rparr>)
      ''film.torrent'' 8080 False
     = (zero_Client\<lparr>Port := 8080, Client := Some (Engine ?cfg)\<rparr>,
        Some (ClientError ''file not found'' (LibraryError ''no such file'')), [])"
    using NewClient_construction_errors
      [of "example_env\<lparr>os_Stat := (\<lambda>path. Some (LibraryError ''no such file''))\<rparr>"
          False "LibraryError ''no such file''" "''film.torrent''" 8080 "Engine ?cfg" "''film.torrent''"]
    by (simp add: example_env_def HasPrefix_def isHTTP_MatchString_def)
  have 5: "NewClient (example_env\<lparr>AddTorrentFromFile := (\<lambda>c path. Inl (LibraryError ''bad bencode''))\<rparr>)
      ''film.torrent'' 8080 False
     = (zero_Client\<lparr>Port := 8080, Client := Some (Engine ?cfg)\<rparr>,
        Some (ClientError ''adding torrent to the client'' (LibraryError ''bad bencode'')), [])"
    using NewClient_construction_errors
      [of "example_env\<lparr>AddTorrentFromFile := (\<lambda>c path. Inl (LibraryError ''bad bencode''))\<rparr>"
          False "LibraryError ''bad bencode''" "''film.torrent''" 8080 "Engine ?cfg" "''film.torrent''"]
    by (simp add: example_env_def HasPrefix_def isHTTP_MatchString_def)
  from 1 2 3 4 5 show ?thesis by (simp only: simp_thms)
qed

text \<open>
  Claim C10, as the code has it. \<open>downloadFile\<close> never reads the status code. When the
  temporary file is created, the GET returns a response and its body is copied
  completely, \<open>downloadFile\<close> returns the name of the temporary file and no error, the
  file holds the body, and nothing changes when the response carries any other status
  code; \<open>NewClient\<close> goes on with that name: \<open>os.Stat\<close>, then \<open>AddTorrentFromFile\<close>.
  \<open>downloadFile\<close> returns an error exactly when creating the temporary file fails, the
  GET fails or the copy fails.
\<close>

theorem downloadFile_ignores_status:
  "(ioutil_TempFile e (os_TempDir e) ''torrent-imageviewer'' = Inr file
      \<and> http_Get e URL = Inr response \<and> io_Copy e (Body response) = None \<longrightarrow>
        downloadFile e URL = ((file, None), Some (file, Body response))
        \<and> downloadFile (e\<lparr>http_Get := (\<lambda>u. Inr (response\<lparr>StatusCode := status\<rparr>))\<rparr>) URL
          = downloadFile e URL
        \<and> (isHTTP_MatchString URL
           \<and> torrent_NewClient e \<lparr>DataDir = os_TempDir e, NoUpload = \<not> seed, Seed = seed\<rparr> = Inr c \<longrightarrow>
             NewClient e URL port seed =
               (case os_Stat e file of
                  Some err \<Rightarrow>
                    (zero_Client\<lparr>Port := port, Client := Some c\<rparr>,
                     Some (ClientError ''file not found'' err), [])
                | None \<Rightarrow>
                    (case AddTorrentFromFile e c file of
                       Inl err \<Rightarrow>
                         (zero_Client\<lparr>Port := port, Client := Some c\<rparr>,
                          Some (ClientError ''adding torrent to the client'' err), [])
                     | Inr t \<Rightarrow>
                         (zero_Client\<lparr>Port := port, Client := Some c, Torrent := t\<rparr>,
                          None, [Prioritize t])))))
   \<and> (snd (fst (downloadFile e URL)) \<noteq> None \<longleftrightarrow>
        (\<exists>err. ioutil_TempFile e (os_TempDir e) ''torrent-imageviewer'' = Inl err)
        \<or> (\<exists>err. http_Get e URL = Inl err)
        \<or> (\<exists>response n err. http_Get e URL = Inr response \<and> io_Copy e (Body response) = Some (n, err)))"
proof -
  have a: "downloadFile e URL = ((file, None), Some (file, Body response))"
    if "ioutil_TempFile e (os_TempDir e) ''torrent-imageviewer'' = Inr file"
      "http_Get e URL = Inr response" "io_Copy e (Body response) = None"
    using that by (simp add: downloadFile_def)
  have b: "downloadFile (e\<lparr>http_Get := (\<lambda>u. Inr (response\<lparr>StatusCode := status\<rparr>))\<rparr>) URL
              = downloadFile e URL"
    if "ioutil_TempFile e (os_TempDir e) ''torrent-imageviewer'' = Inr file"
      "http_Get e URL = Inr response" "io_Copy e (Body response) = None"
    using that by (simp add: downloadFile_def)
  have c: "NewClient e URL port seed =
                   (case os_Stat e file of
                      Some err \<Rightarrow>
                        (zero_Client\<lparr>Port := port, Client := Some c\<rparr>,
                         Some (ClientError ''file not found'' err), [])
                    | None \<Rightarrow>
                        (case AddTorrentFromFile e c file of
                           Inl err \<Rightarrow>
                             (zero_Client\<lparr>Port := port, Client := Some c\<rparr>,
                              Some (ClientError ''adding torrent to the client'' err), [])
                         | Inr t \<Rightarrow>
                             (zero_Client\<lparr>Port := port, Client := Some c, Torrent := t\<rparr>,
                              None, [Prioritize t])))"
    if "ioutil_TempFile e (os_TempDir e) ''torrent-imageviewer'' = Inr file"
      "http_Get e URL = Inr response" "io_Copy e (Body response) = None"
      "isHTTP_MatchString URL"
      "torrent_NewClient e \<lparr>DataDir = os_TempDir e, NoUpload = \<not> seed, Seed = seed\<rparr> = Inr c"
    using that(4,5) a [OF that(1,2,3)] isHTTP_not_magnet [OF that(4)]
    by (simp add: NewClient_def Let_def split: option.splits sum.splits)
  have d: "snd (fst (downloadFile e URL)) \<noteq> None \<longleftrightarrow>
        (\<exists>err. ioutil_TempFile e (os_TempDir e) ''torrent-imageviewer'' = Inl err)
        \<or> (\<exists>err. http_Get e URL = Inl err)
        \<or> (\<exists>response n err. http_Get e URL = Inr response \<and> io_Copy e (Body response) = Some (n, err))"
  proof (cases "ioutil_TempFile e (os_TempDir e) ''torrent-imageviewer''")
    case (Inl err)
    then show ?thesis by (simp add: downloadFile_def)
  next
    case (Inr f)
    then show ?thesis
      by (auto simp: downloadFile_def split: sum.splits option.splits)
  qed
  from a b c d show ?thesis by blast
qed

theorem downloadFile_ignores_status_witness:
  "downloadFile example_env ''http://example.org/film.torrent''
     = ((''/tmp/torrent-imageviewer042'', None), Some (''/tmp/torrent-imageviewer042'', ''Not Found''))
   \<and> downloadFile (example_env\<lparr>http_Get := (\<lambda>u. Inr \<lparr>StatusCode = 200, Body = ''Not Found''\<rparr>)\<rparr>)
        ''http://example.org/film.torrent''
     = downloadFile example_env ''http://example.org/film.torrent''
   \<and> NewClient example_env ''http://example.org/film.torrent'' 8080 True
     = (zero_Client\<lparr>Port := 8080,
                     Client := Some (Engine \<lparr>DataDir = ''/tmp'', NoUpload = False, Seed = True\<rparr>),
                     Torrent := example_torrent\<rparr>,
        None, [Prioritize example_torrent])"
  using downloadFile_ignores_status
    [of example_env "''/tmp/torrent-imageviewer042''" "''http://example.org/film.torrent''"
        "\<lparr>StatusCode = 404, Body = ''Not Found''\<rparr>" 200 True
        "Engine \<lparr>DataDir = ''/tmp'', NoUpload = False, Seed = True\<rparr>" 8080]
  by (simp add: example_env_def isHTTP_MatchString_def)

text \<open>
  Claim C10 as the specification states it lets only a failure of the GET or of the
  copy produce a construction error. When the temporary file cannot be created, the web
  server would answer and the copy would succeed, but no GET is made: \<open>downloadFile\<close>
  returns the error of \<open>ioutil.TempFile\<close> and \<open>NewClient\<close> returns it as the origin of a
  \<open>ClientError\<close> whose type is \<open>downloading torrent file\<close>.
\<close>

theorem downloadFile_TempFile_failure_counterexample:
  "http_Get (example_env\<lparr>ioutil_TempFile := (\<lambda>dir pre. Inl (LibraryError ''no space left on device''))\<rparr>)
      ''http://example.org/film.torrent''
     = Inr \<lparr>StatusCode = 404, Body = ''Not Found''\<rparr>
   \<and> io_Copy (example_env\<lparr>ioutil_TempFile := (\<lambda>dir pre. Inl (LibraryError ''no space left on device''))\<rparr>)
      ''Not Found'' = None
   \<and> downloadFile (example_env\<lparr>ioutil_TempFile := (\<lambda>dir pre. Inl (LibraryError ''no space left on device''))\<rparr>)
      ''http://example.org/film.torrent''
     = (([], Some (LibraryError ''no space left on device'')), None)
   \<and> NewClient (example_env\<lparr>ioutil_TempFile := (\<lambda>dir pre. Inl (LibraryError ''no space left on device''))\<rparr>)
      ''http://example.org/film.torrent'' 8080 False
     = (zero_Client\<lparr>Port := 8080,
                     Client := Some (Engine \<lparr>DataDir = ''/tmp'', NoUpload = True, Seed = False\<rparr>)\<rparr>,
        Some (ClientError ''downloading torrent file'' (LibraryError ''no space left on device'')), [])"
  by (simp add: example_env_def downloadFile_def NewClient_def HasPrefix_def isHTTP_MatchString_def)

section \<open>The file that is served\<close>

lemma largest_loop_unchanged:
  "\<forall>f\<in>set fs. \<not> m <s File_Length f \<Longrightarrow> largest_loop fs (m, t) = (m, t)"
  by (induction fs) simp_all

lemma largest_loop_first_max:
  "\<exists>f\<in>set fs. m <s File_Length f \<Longrightarrow>
   \<exists>pre tgt post. fs = pre @ tgt # post \<and> largest_loop fs (m, t) = (File_Length tgt, tgt)
     \<and> m <s File_Length tgt
     \<and> (\<forall>f\<in>set pre. File_Length f <s File_Length tgt)
     \<and> (\<forall>f\<in>set post. File_Length f \<le>s File_Length tgt)"
proof (induction fs arbitrary: m t)
  case Nil
  then show ?case by simp
next
  case (Cons f fs)
  show ?case
  proof (cases "m <s File_Length f")
    case True
    show ?thesis
    proof (cases "\<exists>g\<in>set fs. File_Length f <s File_Length g")
      case bigger: True
      from Cons.IH [OF bigger, of f] obtain pre tgt post where
        IH: "fs = pre @ tgt # post" "largest_loop fs (File_Length f, f) = (File_Length tgt, tgt)"
          "File_Length f <s File_Length tgt"
          "\<forall>g\<in>set pre. File_Length g <s File_Length tgt"
          "\<forall>g\<in>set post. File_Length g \<le>s File_Length tgt"
        by blast
      have "f # fs = (f # pre) @ tgt # post" using IH(1) by simp
      moreover have "largest_loop (f # fs) (m, t) = (File_Length tgt, tgt)"
        using True IH(2) by simp
      moreover have "m <s File_Length tgt"
        using True IH(3) by (simp add: word_sless_alt)
      moreover have "\<forall>g\<in>set (f # pre). File_Length g <s File_Length tgt"
        using IH(3,4) by simp
      ultimately show ?thesis using IH(5) by blast
    next
      case none: False
      then have "largest_loop fs (File_Length f, f) = (File_Length f, f)"
        by (intro largest_loop_unchanged) simp
      then have "largest_loop (f # fs) (m, t) = (File_Length f, f)"
        using True by simp
      moreover have "f # fs = [] @ f # fs" by simp
      moreover have "\<forall>g\<in>set fs. File_Length g \<le>s File_Length f"
        using none by (auto simp: word_sless_alt word_sle_eq)
      ultimately show ?thesis using True by fastforce
    qed
  next
    case False
    with Cons.prems have "\<exists>g\<in>set fs. m <s File_Length g" by auto
    from Cons.IH [OF this, of t] obtain pre tgt post where
      IH: "fs = pre @ tgt # post" "largest_loop fs (m, t) = (File_Length tgt, tgt)"
        "m <s File_Length tgt"
        "\<forall>g\<in>set pre. File_Length g <s File_Length tgt"
        "\<forall>g\<in>set post. File_Length g \<le>s File_Length tgt"
      by blast
    have "f # fs = (f # pre) @ tgt # post" using IH(1) by simp
    moreover have "largest_loop (f # fs) (m, t) = (File_Length tgt, tgt)"
      using False IH(2) by simp
    moreover have "File_Length f <s File_Length tgt"
      using False IH(3) by (simp add: word_sless_alt)
    then have "\<forall>g\<in>set (f # pre). File_Length g <s File_Length tgt"
      using IH(4) by simp
    ultimately show ?thesis using IH(3,5) by blast
  qed
qed

lemma GetFile_target:
  "GetFile NewFileReader c r =
     (case NewFileReader c (getLargestFile c) of
        Inl err \<Rightarrow> http_Error (Error err) 500
      | Inr entry \<Rightarrow>
          http_ServeContent r
            (''attachment; filename='' @ [CHR 0x22] @ Name (Torrent c) @ [CHR 0x22])
            (DisplayPath (getLargestFile c)) entry)"
  by (simp add: GetFile_def Let_def)

text \<open>
  Claim C9. The running maximum starts at 0 with the zero-value \<open>File\<close> as target and
  is replaced only by a strictly longer file. So when some file has a positive length,
  \<open>getLargestFile\<close> returns the first file of the greatest length: every file before
  it is strictly shorter, no file after it is longer. When no file has a positive
  length, in particular when there are no files, it returns the zero-value \<open>File\<close>, of
  length 0, and \<open>GetFile\<close> hands that descriptor to \<open>NewFileReader\<close> and serves from the
  reader it gets, under the empty display path.
\<close>

theorem getLargestFile_first_maximum:
  "((\<exists>f\<in>set (Files (Torrent c)). 0 <s File_Length f) \<longrightarrow>
      (\<exists>pre post. Files (Torrent c) = pre @ getLargestFile c # post
         \<and> 0 <s File_Length (getLargestFile c)
         \<and> (\<forall>f\<in>set pre. File_Length f <s File_Length (getLargestFile c))
         \<and> (\<forall>f\<in>set post. File_Length f \<le>s File_Length (getLargestFile c))))
   \<and> ((\<forall>f\<in>set (Files (Torrent c)). \<not> 0 <s File_Length f) \<longrightarrow>
        getLargestFile c = zero_File
        \<and> File_Length (getLargestFile c) = 0
        \<and> GetFile NewFileReader c r =
            (case NewFileReader c zero_File of
               Inl err \<Rightarrow> http_Error (Error err) 500
             | Inr entry \<Rightarrow>
                 http_ServeContent r
                   (''attachment; filename='' @ [CHR 0x22] @ Name (Torrent c) @ [CHR 0x22])
                   [] entry))"
proof -
  have a: "\<exists>pre post. Files (Torrent c) = pre @ getLargestFile c # post
         \<and> 0 <s File_Length (getLargestFile c)
         \<and> (\<forall>f\<in>set pre. File_Length f <s File_Length (getLargestFile c))
         \<and> (\<forall>f\<in>set post. File_Length f \<le>s File_Length (getLargestFile c))"
    if "\<exists>f\<in>set (Files (Torrent c)). 0 <s File_Length f"
  proof -
    from largest_loop_first_max [OF that, of zero_File] obtain pre tgt post where
      "Files (Torrent c) = pre @ tgt # post"
      "largest_loop (Files (Torrent c)) (0, zero_File) = (File_Length tgt, tgt)"
      "0 <s File_Length tgt"
      "\<forall>f\<in>set pre. File_Length f <s File_Length tgt"
      "\<forall>f\<in>set post. File_Length f \<le>s File_Length tgt"
      by blast
    then show ?thesis unfolding getLargestFile_def by auto
  qed
  have b: "getLargestFile c = zero_File"
    if "\<forall>f\<in>set (Files (Torrent c)). \<not> 0 <s File_Length f"
    using largest_loop_unchanged [OF that, of zero_File] by (simp add: getLargestFile_def)
  have z: "File_Length zero_File = 0" "DisplayPath zero_File = []"
    by (simp_all add: zero_File_def)
  have g: "GetFile NewFileReader c r =
            (case NewFileReader c zero_File of
               Inl err \<Rightarrow> http_Error (Error err) 500
             | Inr entry \<Rightarrow>
                 http_ServeContent r
                   (''attachment; filename='' @ [CHR 0x22] @ Name (Torrent c) @ [CHR 0x22])
                   [] entry)"
    if "\<forall>f\<in>set (Files (Torrent c)). \<not> 0 <s File_Length f"
    unfolding GetFile_target b [OF that] z ..
  show ?thesis
    using a b g z(1) by simp
qed

theorem getLargestFile_first_maximum_witness:
  "getLargestFile (zero_Client\<lparr>Torrent := example_torrent\<rparr>)
     = \<lparr>DisplayPath = ''film/film.mkv'', Offset = 10, File_Length = 90\<rparr>
   \<and> getLargestFile (zero_Client\<lparr>Torrent := example_torrent\<lparr>Files := []\<rparr>\<rparr>) = zero_File
   \<and> GetFile (\<lambda>c f. Inr (DisplayPath f)) (zero_Client\<lparr>Torrent := example_torrent\<lparr>Files := []\<rparr>\<rparr>) ''GET /''
     = http_ServeContent ''GET /'' (''attachment; filename='' @ [CHR 0x22] @ ''film'' @ [CHR 0x22]) [] []"
proof -
  have "getLargestFile (zero_Client\<lparr>Torrent := example_torrent\<rparr>)
     = \<lparr>DisplayPath = ''film/film.mkv'', Offset = 10, File_Length = 90\<rparr>"
    using getLargestFile_first_maximum [of "zero_Client\<lparr>Torrent := example_torrent\<rparr>"]
    by (simp add: getLargestFile_def example_torrent_def word_sless_alt)
  moreover have "getLargestFile (zero_Client\<lparr>Torrent := example_torrent\<lparr>Files := []\<rparr>\<rparr>) = zero_File
   \<and> GetFile (\<lambda>c f. Inr (DisplayPath f)) (zero_Client\<lparr>Torrent := example_torrent\<lparr>Files := []\<rparr>\<rparr>) ''GET /''
     = http_ServeContent ''GET /'' (''attachment; filename='' @ [CHR 0x22] @ ''film'' @ [CHR 0x22]) [] []"
    using getLargestFile_first_maximum [of "zero_Client\<lparr>Torrent := example_torrent\<lparr>Files := []\<rparr>\<rparr>"
        "\<lambda>c f. Inr (DisplayPath f)" "''GET /''"]
    by (simp add: example_torrent_def zero_File_def)
  ultimately show ?thesis by simp
qed

text \<open>
  Claim C3, as the code has it. When the session has a file of positive length, the
  file that \<open>GetFile\<close> opens and serves is one of the session's files and no file of
  the session is longer; the request takes no part in the choice.
\<close>

theorem GetFile_serves_largest_file:
  assumes "\<exists>f\<in>set (Files (Torrent c)). 0 <s File_Length f"
  shows "getLargestFile c \<in> set (Files (Torrent c))
    \<and> (\<forall>f\<in>set (Files (Torrent c)). File_Length f \<le>s File_Length (getLargestFile c))
    \<and> GetFile NewFileReader c r =
         (case NewFileReader c (getLargestFile c) of
            Inl err \<Rightarrow> http_Error (Error err) 500
          | Inr entry \<Rightarrow>
              http_ServeContent r
                (''attachment; filename='' @ [CHR 0x22] @ Name (Torrent c) @ [CHR 0x22])
                (DisplayPath (getLargestFile c)) entry)"
proof -
  from largest_loop_first_max [OF assms, of zero_File] obtain pre tgt post where
    f: "Files (Torrent c) = pre @ tgt # post"
    and l: "largest_loop (Files (Torrent c)) (0, zero_File) = (File_Length tgt, tgt)"
    and pre: "\<forall>f\<in>set pre. File_Length f <s File_Length tgt"
    and post: "\<forall>f\<in>set post. File_Length f \<le>s File_Length tgt"
    by blast
  from l have t: "getLargestFile c = tgt" by (simp add: getLargestFile_def)
  have "tgt \<in> set (Files (Torrent c))" unfolding f by simp
  moreover have "\<forall>f\<in>set (Files (Torrent c)). File_Length f \<le>s File_Length tgt"
    unfolding f using pre post by (auto simp: word_sless_alt word_sle_eq)
  ultimately show ?thesis unfolding t [symmetric] by (simp add: GetFile_target)
qed

theorem GetFile_serves_largest_file_witness:
  "getLargestFile (zero_Client\<lparr>Torrent := example_torrent\<rparr>) \<in> set (Files example_torrent)
   \<and> File_Length (getLargestFile (zero_Client\<lparr>Torrent := example_torrent\<rparr>)) = 90"
  using GetFile_serves_largest_file [of "zero_Client\<lparr>Torrent := example_torrent\<rparr>"]
  by (simp add: getLargestFile_def example_torrent_def word_sless_alt)

text \<open>
  Claim C3 as the specification states it holds for every session. With no files (as
  before the metadata has arrived), and with a single file of length 0, the file
  served is the zero-value \<open>File\<close>, which is not a file of the session.
\<close>

theorem GetFile_without_positive_length_counterexample:
  "getLargestFile (zero_Client\<lparr>Torrent := example_torrent\<lparr>Files := []\<rparr>\<rparr>)
     \<notin> set (Files (Torrent (zero_Client\<lparr>Torrent := example_torrent\<lparr>Files := []\<rparr>\<rparr>)))
   \<and> getLargestFile (zero_Client\<lparr>Torrent := example_torrent
        \<lparr>Files := [\<lparr>DisplayPath = ''empty.txt'', Offset = 0, File_Length = 0\<rparr>]\<rparr>\<rparr>)
     \<notin> set (Files (Torrent (zero_Client\<lparr>Torrent := example_torrent
        \<lparr>Files := [\<lparr>DisplayPath = ''empty.txt'', Offset = 0, File_Length = 0\<rparr>]\<rparr>\<rparr>)))"
  by (simp add: getLargestFile_def zero_File_def)

section \<open>Unsigned difference of two samples\<close>

lemma unat_sub_sint:
  fixes b p :: int64
  assumes "sint p \<le> sint b"
  shows "int (unat (b - p)) = sint b - sint p"
proof -
  have r: "- (2 ^ 63) \<le> sint b" "sint b < 2 ^ 63" "- (2 ^ 63) \<le> sint p" "sint p < 2 ^ 63"
    using sint64_range [of b] sint64_range [of p] by simp_all
  have "uint (b - p) = take_bit 64 (sint (b - p))"
    using uint_sint [of "b - p"] by simp
  also have "sint (b - p) = signed_take_bit 63 (sint b - sint p)"
    using sint_word_diff [of b p] by simp
  also have "take_bit 64 (signed_take_bit 63 (sint b - sint p)) = take_bit 64 (sint b - sint p)"
    by (rule take_bit_signed_take_bit) simp
  also have "\<dots> = sint b - sint p"
    using assms r by (intro take_bit_int_eq_self) simp_all
  finally show ?thesis by simp
qed

section \<open>Rendering\<close>

lemma round64_minus_one: "round64 (- 1) = Fin (- 1)"
proof -
  have p: "round_pos 1 = 1" using round_pos_int_exact [of 1] by simp
  have "round_pos 1 < max_f64" unfolding p using max_f64_big by simp
  then have "round64 (- 1) = Fin (- round_pos 1)"
    by (intro round64_neg_Fin) simp_all
  then show ?thesis unfolding p .
qed

lemma float64_neg:
  assumes "sint w < 0"
  shows "\<exists>v. float64 w = Fin v \<and> v \<le> - 1"
proof -
  obtain v where v: "float64 w = Fin v" using float64_finite by blast
  have "sint w \<le> - 1" using assms by simp
  then have "(of_int (sint w) :: rat) \<le> of_int (- 1)"
    by (simp only: of_int_le_iff)
  then have "f64_le (round64 (of_int (sint w))) (round64 (of_int (- 1)))"
    by (rule round64_mono)
  then have "f64_le (float64 w) (Fin (- 1))"
    unfolding float64_def by (simp add: round64_minus_one)
  with v show ?thesis by simp
qed

lemma float64_zero: "float64 0 = Fin 0"
  by (simp add: float64_def round64_zero)

lemma percentage_zero_length_value:
  assumes "Length (Torrent c) = 0"
  shows "percentage c =
     (if BytesCompleted (Torrent c) = 0 then NaN
      else if 0 <s BytesCompleted (Torrent c) then PInf else NInf)"
proof -
  consider "BytesCompleted (Torrent c) = 0" | "0 < sint (BytesCompleted (Torrent c))"
    | "sint (BytesCompleted (Torrent c)) < 0"
    by (metis linorder_neqE_linordered_idom sint_0 signed_eq_0_iff)
  then show ?thesis
  proof cases
    case 1
    with assms show ?thesis by (simp add: percentage_def float64_zero)
  next
    case 2
    then obtain v where v: "float64 (BytesCompleted (Torrent c)) = Fin v" "1 \<le> v"
      using float64_pos by blast
    from 2 have "BytesCompleted (Torrent c) \<noteq> 0" by auto
    with 2 v assms show ?thesis
      by (simp add: percentage_def float64_zero word_sless_alt)
  next
    case 3
    then obtain v where v: "float64 (BytesCompleted (Torrent c)) = Fin v" "v \<le> - 1"
      using float64_neg by blast
    from 3 have "BytesCompleted (Torrent c) \<noteq> 0" by auto
    with 3 v assms show ?thesis
      by (simp add: percentage_def float64_zero word_sless_alt)
  qed
qed

text \<open>
  Claim C4, as the code has it. With a total length of zero \<open>percentage\<close> divides by
  the \<open>float64\<close> zero, which does not panic: the result is NaN when nothing is
  completed, \<open>+Inf\<close> when \<open>bytesCompleted\<close> is positive and \<open>-Inf\<close> when it is negative,
  never 0. \<open>Render\<close> prints the percentage only when \<open>bytesCompleted > 0\<close>: with
  nothing completed it prints no progress line and no stream line; with a positive
  \<open>bytesCompleted\<close> it prints the stream line and the percentage \<open>+Inf\<close>.
\<close>

theorem percentage_of_zero_length:
  assumes "Length (Torrent c) = 0"
  shows "percentage c =
       (if BytesCompleted (Torrent c) = 0 then NaN
        else if 0 <s BytesCompleted (Torrent c) then PInf else NInf)
     \<and> (BytesCompleted (Torrent c) = 0 \<longrightarrow>
          \<not> ReadyForPlayback c
          \<and> snd (Render c) =
              [Print_clearScreen, Print_Name (Name (Torrent c)), Print_rule,
               Print_Connections (length (Conns (Torrent c)))])
     \<and> (0 <s BytesCompleted (Torrent c) \<longrightarrow>
          snd (Render c) =
              [Print_clearScreen, Print_Name (Name (Torrent c)), Print_rule,
               Print_Stream (Port c), Print_Progress (BytesCompleted (Torrent c)) 0 PInf,
               Print_Connections (length (Conns (Torrent c)))])"
proof -
  let ?c = "c\<lparr>Progress := BytesCompleted (Torrent c)\<rparr>"
  have l: "Length (Torrent ?c) = 0" using assms by simp
  note p = percentage_zero_length_value [OF assms]
  note p' = percentage_zero_length_value [OF l]
  have z: "\<not> ReadyForPlayback c \<and> snd (Render c) =
              [Print_clearScreen, Print_Name (Name (Torrent c)), Print_rule,
               Print_Connections (length (Conns (Torrent c)))]"
    if "BytesCompleted (Torrent c) = 0"
    using that assms p p' by (simp add: Render_def Let_def ReadyForPlayback_def)
  have g: "snd (Render c) =
              [Print_clearScreen, Print_Name (Name (Torrent c)), Print_rule,
               Print_Stream (Port c), Print_Progress (BytesCompleted (Torrent c)) 0 PInf,
               Print_Connections (length (Conns (Torrent c)))]"
    if "0 <s BytesCompleted (Torrent c)"
  proof -
    from that have "BytesCompleted (Torrent c) \<noteq> 0" by auto
    moreover from that have "\<not> BytesCompleted (Torrent c) <s 0"
      by (simp add: word_sless_alt)
    ultimately show ?thesis
      using that assms p' by (simp add: Render_def Let_def ReadyForPlayback_def)
  qed
  from p z g show ?thesis by blast
qed

theorem percentage_of_zero_length_witness:
  "percentage (zero_Client\<lparr>Torrent := example_torrent\<lparr>Length := 0, BytesCompleted := 0\<rparr>\<rparr>) = NaN
   \<and> snd (Render (zero_Client\<lparr>Torrent := example_torrent\<lparr>Length := 0, BytesCompleted := 0\<rparr>\<rparr>))
      = [Print_clearScreen, Print_Name ''film'', Print_rule, Print_Connections 1]
   \<and> snd (Render (zero_Client\<lparr>Torrent := example_torrent\<lparr>Length := 0\<rparr>, Port := 8080\<rparr>))
      = [Print_clearScreen, Print_Name ''film'', Print_rule, Print_Stream 8080,
         Print_Progress 10 0 PInf, Print_Connections 1]"
  using percentage_of_zero_length
      [of "zero_Client\<lparr>Torrent := example_torrent\<lparr>Length := 0, BytesCompleted := 0\<rparr>\<rparr>"]
    percentage_of_zero_length
      [of "zero_Client\<lparr>Torrent := example_torrent\<lparr>Length := 0\<rparr>, Port := 8080\<rparr>"]
  by (simp add: example_torrent_def word_sless_alt)

text \<open>
  Claim C4 as the specification states it asks for the value 0 and for no NaN. For a
  session of total length 0 with nothing completed, \<open>percentage\<close> is NaN.
\<close>

theorem percentage_of_zero_length_counterexample:
  "Length (Torrent (zero_Client\<lparr>Torrent := example_torrent\<lparr>Length := 0, BytesCompleted := 0\<rparr>\<rparr>)) = 0
   \<and> percentage (zero_Client\<lparr>Torrent := example_torrent\<lparr>Length := 0, BytesCompleted := 0\<rparr>\<rparr>) = NaN
   \<and> percentage (zero_Client\<lparr>Torrent := example_torrent\<lparr>Length := 0, BytesCompleted := 0\<rparr>\<rparr>) \<noteq> Fin 0"
  by (simp add: percentage_def float64_zero)

text \<open>
  Claim C8, as the code has it. \<open>Render\<close> changes the client in the field \<open>Progress\<close>
  only, which becomes the current \<open>BytesCompleted\<close>. The speed it prints, when the
  download is not complete, is the difference between the current and the stored
  sample, as a \<open>uint64\<close>, labelled per second and not divided by any interval: when the
  stored sample is not above the current one it is the specification's throughput for
  an interval of one second.
\<close>

theorem Render_reports_byte_delta:
  "fst (Render c) = c\<lparr>Progress := BytesCompleted (Torrent c)\<rparr>
   \<and> (BytesCompleted (Torrent c) <s Length (Torrent c) \<longrightarrow>
        Print_Download_speed (BytesCompleted (Torrent c) - Progress c) \<in> set (snd (Render c)))
   \<and> (sint (Progress c) \<le> sint (BytesCompleted (Torrent c)) \<longrightarrow>
        of_nat (unat (Render_speed c)) = spec_throughput (BytesCompleted (Torrent c)) (Progress c) 1)"
proof -
  have "(of_nat (unat (Render_speed c)) :: rat)
      = spec_throughput (BytesCompleted (Torrent c)) (Progress c) 1"
    if "sint (Progress c) \<le> sint (BytesCompleted (Torrent c))"
  proof -
    have "(of_nat (unat (Render_speed c)) :: rat) = of_int (int (unat (Render_speed c)))"
      by simp
    also have "\<dots> = of_int (sint (BytesCompleted (Torrent c)) - sint (Progress c))"
      unfolding Render_speed_def unat_sub_sint [OF that] ..
    finally show ?thesis by (simp add: spec_throughput_def)
  qed
  then show ?thesis
    by (simp add: Render_def Let_def Render_speed_def)
qed

theorem Render_reports_byte_delta_witness:
  "fst (Render (zero_Client\<lparr>Torrent := example_torrent\<rparr>))
     = zero_Client\<lparr>Torrent := example_torrent, Progress := 10\<rparr>
   \<and> Print_Download_speed 10 \<in> set (snd (Render (zero_Client\<lparr>Torrent := example_torrent\<rparr>)))
   \<and> (of_nat (unat (Render_speed (zero_Client\<lparr>Torrent := example_torrent\<rparr>))) :: rat)
     = spec_throughput 10 0 1"
  using Render_reports_byte_delta [of "zero_Client\<lparr>Torrent := example_torrent\<rparr>"]
  by (simp add: example_torrent_def zero_Client_def word_sless_alt)

text \<open>
  Claim C8 as the specification states it divides by the interval between the samples.
  With samples 0 and 10 taken two seconds apart the throughput is 5; \<open>Render\<close> prints 10.
\<close>

theorem Render_speed_two_seconds_counterexample:
  "Print_Download_speed 10 \<in> set (snd (Render (zero_Client\<lparr>Torrent := example_torrent\<rparr>)))
   \<and> spec_throughput (BytesCompleted (Torrent (zero_Client\<lparr>Torrent := example_torrent\<rparr>)))
        (Progress (zero_Client\<lparr>Torrent := example_torrent\<rparr>)) 2 = 5
   \<and> (of_nat (unat (Render_speed (zero_Client\<lparr>Torrent := example_torrent\<rparr>))) :: rat)
     \<noteq> spec_throughput (BytesCompleted (Torrent (zero_Client\<lparr>Torrent := example_torrent\<rparr>)))
        (Progress (zero_Client\<lparr>Torrent := example_torrent\<rparr>)) 2"
  by (simp add: Render_def Let_def Render_speed_def spec_throughput_def example_torrent_def
      zero_Client_def word_sless_alt)

end
